theory Spec2Isabelle
  imports Complex_Main
begin

section \<open>Data model of the mind-map engine\<close>

text \<open>
  The engine is the React component \<open>MindMap\<close> (mind-map.tsx). Its inputs are the
  immutable \<open>GraphNode\<close> and \<open>GraphEdge\<close> lists; its own state lives in refs
  (\<open>simNodesRef\<close>, \<open>simLinksRef\<close>, \<open>prevNodeIdsRef\<close>, \<open>transformRef\<close>).
  JavaScript numbers are modelled as \<open>real\<close> where the code computes fractions, as
  \<open>nat\<close> for depths and island indices (array indices and counters), and as \<open>int\<close>
  for \<open>Date.now()\<close>. Single-letter fields of the source (\<open>x\<close>, \<open>y\<close>, \<open>vx\<close>,
  \<open>vy\<close>, \<open>k\<close>) carry a prefix, since single letters are variables here.
\<close>

datatype NodeType = Root | Generated

record GraphNode =
  nodeId :: string
  label :: string
  nodeType :: NodeType
  reason :: "string option"

record GraphEdge =
  source :: string
  target :: string
  edgeLabel :: "string option"

type_synonym depthMap = "string \<rightharpoonup> nat"
type_synonym islandMap = "string \<rightharpoonup> nat"

text \<open>An entry of the BFS queue: \<open>{ id, depth }\<close>.\<close>

type_synonym queueItem = "string \<times> nat"

section \<open>Topology analysis: \<open>calculateDepthsAndIslands\<close>\<close>

text \<open>
  The body of \<open>for (const childId of children)\<close>: a child that has no depth yet gets
  the depth of the current item plus one and the island of the root being processed, and
  is pushed at the end of the queue.
\<close>

fun visitChildren ::
  "string list \<Rightarrow> nat \<Rightarrow> nat \<Rightarrow> depthMap \<times> islandMap \<times> queueItem list
    \<Rightarrow> depthMap \<times> islandMap \<times> queueItem list" where
  "visitChildren [] curDepth islandIndex st = st"
| "visitChildren (childId # cs) curDepth islandIndex (dm, im, queue) =
     (if dm childId = None
      then visitChildren cs curDepth islandIndex
             (dm(childId \<mapsto> curDepth + 1), im(childId \<mapsto> islandIndex),
              queue @ [(childId, curDepth + 1)])
      else visitChildren cs curDepth islandIndex (dm, im, queue))"

text \<open>\<open>edges.filter((e) => e.source === current.id).map((e) => e.target)\<close>\<close>

definition childrenOf :: "GraphEdge list \<Rightarrow> string \<Rightarrow> string list" where
  "childrenOf edges cur = map target (filter (\<lambda>e. source e = cur) edges)"

lemma visitChildren_measure:
  "set cs \<subseteq> T \<Longrightarrow> finite T \<Longrightarrow> visitChildren cs d i (dm, im, q) = (dm', im', q') \<Longrightarrow>
   card (T - dom dm') + length q' = card (T - dom dm) + length q"
proof (induction cs arbitrary: dm im q)
  case Nil
  then show ?case by simp
next
  case (Cons c cs)
  show ?case
  proof (cases "dm c = None")
    case True
    have cT: "c \<in> T" using Cons.prems(1) by simp
    have sub: "set cs \<subseteq> T" using Cons.prems(1) by simp
    have v: "visitChildren cs d i (dm(c \<mapsto> d + 1), im(c \<mapsto> i), q @ [(c, d + 1)])
        = (dm', im', q')"
      using Cons.prems(3) True by simp
    have step: "card (T - dom dm') + length q'
        = card (T - dom (dm(c \<mapsto> d + 1))) + length (q @ [(c, d + 1)])"
      by (rule Cons.IH [OF sub Cons.prems(2) v])
    have mem: "c \<in> T - dom dm" using cT True by (simp add: domIff)
    have fin: "finite (T - dom dm)" using Cons.prems(2) by simp
    have "T - dom (dm(c \<mapsto> d + 1)) = (T - dom dm) - {c}" by auto
    then have "card (T - dom (dm(c \<mapsto> d + 1))) + 1 = card (T - dom dm)"
      using card_Suc_Diff1 [OF fin mem] by simp
    with step show ?thesis by simp
  next
    case False
    have sub: "set cs \<subseteq> T" using Cons.prems(1) by simp
    have v: "visitChildren cs d i (dm, im, q) = (dm', im', q')"
      using Cons.prems(3) False by (simp del: not_None_eq)
    show ?thesis by (rule Cons.IH [OF sub Cons.prems(2) v])
  qed
qed

text \<open>
  The loop \<open>while (queue.length > 0)\<close>: take the head of the queue, visit its children.
  It ends because every push adds a new key to the depth map, and keys are edge targets.
\<close>

function bfsLoop ::
  "GraphEdge list \<Rightarrow> nat \<Rightarrow> depthMap \<times> islandMap \<times> queueItem list \<Rightarrow> depthMap \<times> islandMap" where
  "bfsLoop edges islandIndex (dm, im, []) = (dm, im)"
| "bfsLoop edges islandIndex (dm, im, current # queue) =
     bfsLoop edges islandIndex
       (visitChildren (childrenOf edges (fst current)) (snd current) islandIndex (dm, im, queue))"
  by pat_completeness auto
termination
proof (relation "measure (\<lambda>(edges, i, dm, im, q). card (target ` set edges - dom dm) + length q)")
  show "wf (measure (\<lambda>(edges, i, dm, im, q). card (target ` set edges - dom dm) + length q))"
    by simp
next
  fix edges :: "GraphEdge list" and islandIndex :: nat and dm :: depthMap and im :: islandMap
    and current :: queueItem and queue :: "queueItem list"
  obtain dm' im' q' where
    v: "visitChildren (childrenOf edges (fst current)) (snd current) islandIndex (dm, im, queue)
        = (dm', im', q')"
    by (metis prod_cases3)
  have "set (childrenOf edges (fst current)) \<subseteq> target ` set edges"
    by (auto simp: childrenOf_def)
  from visitChildren_measure [OF this _ v]
  have "card (target ` set edges - dom dm') + length q'
      = card (target ` set edges - dom dm) + length queue"
    by simp
  then show "((edges, islandIndex,
        visitChildren (childrenOf edges (fst current)) (snd current) islandIndex (dm, im, queue)),
       (edges, islandIndex, dm, im, current # queue))
      \<in> measure (\<lambda>(edges, i, dm, im, q). card (target ` set edges - dom dm) + length q)"
    by (simp add: v)
qed

text \<open>
  \<open>rootNodes.forEach((rootNode, islandIndex) => ...)\<close>: the root is seeded with depth 0
  and its own index by two unguarded \<open>set\<close> calls, then the queue is run.
\<close>

fun forEachRoot ::
  "GraphEdge list \<Rightarrow> GraphNode list \<Rightarrow> nat \<Rightarrow> depthMap \<times> islandMap \<Rightarrow> depthMap \<times> islandMap" where
  "forEachRoot edges [] islandIndex st = st"
| "forEachRoot edges (rootNode # rest) islandIndex (dm, im) =
     forEachRoot edges rest (Suc islandIndex)
       (bfsLoop edges islandIndex
          (dm(nodeId rootNode \<mapsto> 0), im(nodeId rootNode \<mapsto> islandIndex),
           [(nodeId rootNode, 0)]))"

definition rootNodesOf :: "GraphNode list \<Rightarrow> GraphNode list" where
  "rootNodesOf nodes = filter (\<lambda>n. nodeType n = Root) nodes"

definition calculateDepthsAndIslands ::
  "GraphNode list \<Rightarrow> GraphEdge list \<Rightarrow> depthMap \<times> islandMap" where
  "calculateDepthsAndIslands nodes edges =
     (let rootNodes = rootNodesOf nodes in
      if length rootNodes = 0 then (Map.empty, Map.empty)
      else forEachRoot edges rootNodes 0 (Map.empty, Map.empty))"

section \<open>The island traversal of the graph state: \<open>getIslandNodes\<close>\<close>

text \<open>
  \<open>useGraphState\<close> (use-graph-state.ts) has its own traversal from a root, which
  collects the nodes of the root's island and follows edges in both directions.
\<close>

text \<open>
  The callback of \<open>edges.forEach\<close>: an edge that leaves the current id pushes its
  target, an edge that enters it pushes its source, each when not yet visited.
\<close>

definition pushNeighbours :: "GraphEdge list \<Rightarrow> string \<Rightarrow> string set \<Rightarrow> string list" where
  "pushNeighbours edges cur visited =
     concat (map (\<lambda>e. (if source e = cur \<and> target e \<notin> visited then [target e] else [])
                       @ (if target e = cur \<and> source e \<notin> visited then [source e] else []))
               edges)"

text \<open>The ids that occur in edges; they bound the loop.\<close>

definition endpoints :: "GraphEdge list \<Rightarrow> string set" where
  "endpoints edges = source ` set edges \<union> target ` set edges"

lemma pushNeighbours_subset: "set (pushNeighbours edges cur visited) \<subseteq> endpoints edges - visited"
  by (auto simp: pushNeighbours_def endpoints_def split: if_splits)

text \<open>
  The loop \<open>while (queue.length > 0)\<close>: a visited id is skipped; otherwise it is marked,
  its node (if the list has one) is appended to the result, and its neighbours are pushed.
\<close>

function getIslandLoop ::
  "GraphNode list \<Rightarrow> GraphEdge list \<Rightarrow> string set \<Rightarrow> string list \<Rightarrow> GraphNode list
    \<Rightarrow> GraphNode list" where
  "getIslandLoop nodes edges visited [] islandNodes = islandNodes"
| "getIslandLoop nodes edges visited (cur # queue) islandNodes =
     (if cur \<in> visited then getIslandLoop nodes edges visited queue islandNodes
      else getIslandLoop nodes edges (insert cur visited)
             (queue @ pushNeighbours edges cur (insert cur visited))
             (case List.find (\<lambda>n. nodeId n = cur) nodes of
                Some node \<Rightarrow> islandNodes @ [node]
              | None \<Rightarrow> islandNodes))"
  by pat_completeness auto
termination
proof (relation "measures [\<lambda>(nodes, edges, visited, queue, acc).
                             card ((endpoints edges \<union> set queue) - visited),
                           \<lambda>(nodes, edges, visited, queue, acc). length queue]")
  show "wf (measures [\<lambda>(nodes, edges, visited, queue, acc).
                             card ((endpoints edges \<union> set queue) - visited),
                           \<lambda>(nodes, edges, visited, queue, acc). length queue])"
    by simp
next
  fix nodes :: "GraphNode list" and edges :: "GraphEdge list" and visited :: "string set"
    and cur :: string and queue :: "string list" and islandNodes :: "GraphNode list"
  assume "cur \<in> visited"
  have fin: "finite ((endpoints edges \<union> set (cur # queue)) - visited)"
    by (simp add: endpoints_def)
  have "(endpoints edges \<union> set queue) - visited \<subseteq> (endpoints edges \<union> set (cur # queue)) - visited"
    by auto
  then have "card ((endpoints edges \<union> set queue) - visited)
      \<le> card ((endpoints edges \<union> set (cur # queue)) - visited)"
    using fin by (rule card_mono [rotated])
  then show "((nodes, edges, visited, queue, islandNodes),
        (nodes, edges, visited, cur # queue, islandNodes))
      \<in> measures [\<lambda>(nodes, edges, visited, queue, acc).
                             card ((endpoints edges \<union> set queue) - visited),
                           \<lambda>(nodes, edges, visited, queue, acc). length queue]"
    by auto
next
  fix nodes :: "GraphNode list" and edges :: "GraphEdge list" and visited :: "string set"
    and cur :: string and queue :: "string list" and islandNodes :: "GraphNode list"
  assume nv: "cur \<notin> visited"
  let ?old = "(endpoints edges \<union> set (cur # queue)) - visited"
  let ?new = "(endpoints edges \<union> set (queue @ pushNeighbours edges cur (insert cur visited)))
      - insert cur visited"
  have fin: "finite ?old" by (simp add: endpoints_def)
  have "?new \<subseteq> ?old" using pushNeighbours_subset [of edges cur "insert cur visited"] by auto
  moreover have "cur \<in> ?old" "cur \<notin> ?new" using nv by auto
  ultimately have "?new \<subset> ?old" by blast
  then have "card ?new < card ?old" using fin by (rule psubset_card_mono [rotated])
  then show "((nodes, edges, insert cur visited,
         queue @ pushNeighbours edges cur (insert cur visited),
         case List.find (\<lambda>n. nodeId n = cur) nodes of
           None \<Rightarrow> islandNodes | Some node \<Rightarrow> islandNodes @ [node]),
        (nodes, edges, visited, cur # queue, islandNodes))
      \<in> measures [\<lambda>(nodes, edges, visited, queue, acc).
                             card ((endpoints edges \<union> set queue) - visited),
                           \<lambda>(nodes, edges, visited, queue, acc). length queue]"
    by simp
qed

definition getIslandNodes :: "GraphNode list \<Rightarrow> GraphEdge list \<Rightarrow> string \<Rightarrow> GraphNode list" where
  "getIslandNodes nodes edges rootId = getIslandLoop nodes edges {} [rootId] []"

section \<open>Depth and island colours\<close>

text \<open>
  \<open>getColorByDepth\<close> returns the string \<open>hsl(h, s%, l%)\<close>, which
  \<open>getColorByDepthAndIsland\<close> parses back with a regular expression. The three
  numbers are non-negative integers for every depth, so the expression always matches;
  the model keeps the three numbers (\<open>Hsl h s l\<close>) in place of the string. \<open>Hex\<close> is
  the fixed amber of the expanding node.
\<close>

datatype Color = Hsl int int int | Hex string

definition getColorByDepth :: "nat \<Rightarrow> Color" where
  "getColorByDepth depth =
     (let t = min (real depth / 8) 1;
          hue = \<lfloor>0 + (270 - 0) * t + 1 / 2\<rfloor>;
          sat = (if depth > 8 then max 50 (85 - (int depth - 8) * 5) else 85)
      in Hsl hue sat 55)"

definition ISLAND_HUE_OFFSETS :: "int list" where
  "ISLAND_HUE_OFFSETS = [0, 120, 240, 60, 180, 300, 30, 150, 270, 90]"

definition getColorByDepthAndIsland :: "nat \<Rightarrow> nat \<Rightarrow> Color" where
  "getColorByDepthAndIsland depth islandIndex =
     (let baseColor = getColorByDepth depth in
      if islandIndex = 0 then baseColor
      else case baseColor of
             Hex s \<Rightarrow> baseColor
           | Hsl h s l \<Rightarrow>
               (let hueOffset = ISLAND_HUE_OFFSETS ! (islandIndex mod length ISLAND_HUE_OFFSETS);
                    newH = (h + hueOffset) mod 360
                in Hsl newH s l))"

section \<open>Simulation nodes, links and the engine state\<close>

text \<open>
  A \<open>SimNode\<close> carries the four \<open>GraphNode\<close> fields and the derived and mutable ones.
  \<open>nodeX\<close>, \<open>nodeY\<close>, \<open>nodeVx\<close>, \<open>nodeVy\<close> are the optional \<open>x\<close>, \<open>y\<close>, \<open>vx\<close>,
  \<open>vy\<close> of d3's \<open>SimulationNodeDatum\<close>.

  SimNodes are JavaScript objects: the update mutates them in place and the arrays hold
  references. The model keeps an explicit store (a list of objects, a reference being an
  index into it); \<open>simNodes\<close> and the link endpoints are references.
\<close>

record SimNode = GraphNode +
  depth :: nat
  islandIndex :: nat
  nodeX :: "real option"
  nodeY :: "real option"
  nodeVx :: "real option"
  nodeVy :: "real option"
  entranceProgress :: real
  entranceStartTime :: int
  scale :: real
  glowIntensity :: real
  pulsePhase :: real

record SimLink =
  linkSource :: nat
  linkTarget :: nat
  linkLabel :: "string option"

record ZoomTransform =
  transX :: real
  transY :: real
  transK :: real

record Dimensions =
  width :: real
  height :: real

record Engine =
  store :: "SimNode list"
  simNodes :: "nat list"
  simLinks :: "SimLink list"
  prevNodeIds :: "string set"
  transform :: ZoomTransform

definition zoomIdentity :: ZoomTransform where
  "zoomIdentity = \<lparr>transX = 0, transY = 0, transK = 1\<rparr>"

text \<open>The state of a freshly mounted component.\<close>

definition initialEngine :: Engine where
  "initialEngine =
     \<lparr>store = [], simNodes = [], simLinks = [], prevNodeIds = {}, transform = zoomIdentity\<rparr>"

definition NODE_RADIUS :: real where "NODE_RADIUS = 12"
definition HIT_RADIUS :: real where "HIT_RADIUS = 40"

section \<open>The update effect: merging nodes and rebuilding links\<close>

text \<open>
  \<open>new Map(simNodesRef.current.map((n) => [n.id, n]))\<close> and
  \<open>new Map(newSimNodes.map((n) => [n.id, n]))\<close>: a later entry with the same key
  replaces an earlier one.
\<close>

definition nodesById :: "SimNode list \<Rightarrow> nat list \<Rightarrow> (string \<rightharpoonup> nat)" where
  "nodesById st refs = map_of (rev (map (\<lambda>r. (nodeId (st ! r), r)) refs))"

text \<open>\<open>m.get(k) ?? 0\<close>\<close>

definition getOrZero :: "(string \<rightharpoonup> nat) \<Rightarrow> string \<Rightarrow> nat" where
  "getOrZero m k = (case m k of Some v \<Rightarrow> v | None \<Rightarrow> 0)"

text \<open>
  The two branches of the callback of \<open>nodes.map\<close>. \<open>updateExisting\<close> is the
  branch \<open>if (existing)\<close>: five assignments to the existing object.
  \<open>createSimNode\<close> is the object literal of the other branch; \<open>rnd\<close> stands for
  \<open>Math.random\<close> (the \<open>c\<close>-th call returns \<open>rnd c\<close>, a created node makes three
  calls), and d3 has not yet given the new object a velocity.
\<close>

definition updateExisting :: "depthMap \<Rightarrow> islandMap \<Rightarrow> GraphNode \<Rightarrow> SimNode \<Rightarrow> SimNode" where
  "updateExisting dm im node existing =
     existing\<lparr>label := label node, nodeType := nodeType node, reason := reason node,
              depth := getOrZero dm (nodeId node),
              islandIndex := getOrZero im (nodeId node)\<rparr>"

definition createSimNode ::
  "string set \<Rightarrow> depthMap \<Rightarrow> islandMap \<Rightarrow> int \<Rightarrow> Dimensions \<Rightarrow> (nat \<Rightarrow> real) \<Rightarrow> nat
    \<Rightarrow> GraphNode \<Rightarrow> SimNode" where
  "createSimNode prevIds dm im now dimensions rnd c node =
     (let isNew = (nodeId node \<notin> prevIds \<and> prevIds \<noteq> {})
      in \<lparr>nodeId = nodeId node, label = label node, nodeType = nodeType node,
          reason = reason node,
          depth = getOrZero dm (nodeId node),
          islandIndex = getOrZero im (nodeId node),
          nodeX = Some (width dimensions / 2 + (rnd c - 0.5) * 50),
          nodeY = Some (height dimensions / 2 + (rnd (c + 1) - 0.5) * 50),
          nodeVx = None, nodeVy = None,
          entranceProgress = (if isNew then 0 else 1),
          entranceStartTime = (if isNew then now else 0),
          scale = 1, glowIntensity = 0.4,
          pulsePhase = rnd (c + 2) * pi * 2\<rparr>)"

text \<open>
  The callback of \<open>nodes.map\<close>, on the store \<open>fst sc\<close> and the count \<open>snd sc\<close> of
  calls to \<open>Math.random\<close> so far. It returns the reference of the node's SimNode, the
  store and the count after the step: an existing object is mutated in place, a new one
  is allocated at the end of the store.
\<close>

definition mergeNode ::
  "(string \<rightharpoonup> nat) \<Rightarrow> string set \<Rightarrow> depthMap \<Rightarrow> islandMap \<Rightarrow> int \<Rightarrow> Dimensions \<Rightarrow> (nat \<Rightarrow> real)
    \<Rightarrow> GraphNode \<Rightarrow> SimNode list \<times> nat \<Rightarrow> nat \<times> SimNode list \<times> nat" where
  "mergeNode existingNodes prevIds dm im now dimensions rnd node sc =
     (case existingNodes (nodeId node) of
        Some existing \<Rightarrow>
          (existing,
           (fst sc)[existing := updateExisting dm im node (fst sc ! existing)],
           snd sc)
      | None \<Rightarrow>
          (length (fst sc),
           fst sc @ [createSimNode prevIds dm im now dimensions rnd (snd sc) node],
           snd sc + 3))"

fun mergeNodes ::
  "(string \<rightharpoonup> nat) \<Rightarrow> string set \<Rightarrow> depthMap \<Rightarrow> islandMap \<Rightarrow> int \<Rightarrow> Dimensions \<Rightarrow> (nat \<Rightarrow> real)
    \<Rightarrow> GraphNode list \<Rightarrow> SimNode list \<times> nat \<Rightarrow> nat list \<times> SimNode list \<times> nat" where
  "mergeNodes ex prevIds dm im now dimensions rnd [] sc = ([], sc)"
| "mergeNodes ex prevIds dm im now dimensions rnd (node # rest) sc =
     (let (r, sc') = mergeNode ex prevIds dm im now dimensions rnd node sc;
          (rs, sc'') = mergeNodes ex prevIds dm im now dimensions rnd rest sc'
      in (r # rs, sc''))"

text \<open>
  \<open>edges.filter((e) => nodeMap.has(e.source) && nodeMap.has(e.target)).map(...)\<close>;
  \<open>the\<close> is the non-null assertion \<open>nodeMap.get(...)!\<close>, guarded by the filter.
\<close>

definition makeSimLinks :: "(string \<rightharpoonup> nat) \<Rightarrow> GraphEdge list \<Rightarrow> SimLink list" where
  "makeSimLinks nodeMap edges =
     map (\<lambda>edge. \<lparr>linkSource = the (nodeMap (source edge)),
                  linkTarget = the (nodeMap (target edge)),
                  linkLabel = edgeLabel edge\<rparr>)
       (filter (\<lambda>e. nodeMap (source e) \<noteq> None \<and> nodeMap (target e) \<noteq> None) edges)"

text \<open>
  The effect that runs when \<open>nodes\<close>, \<open>edges\<close> or the dimensions change, up to the
  three ref assignments. What follows in the source hands the arrays to the d3 force
  simulation, a library outside this repository.
\<close>

definition updateSimulation ::
  "GraphNode list \<Rightarrow> GraphEdge list \<Rightarrow> int \<Rightarrow> Dimensions \<Rightarrow> (nat \<Rightarrow> real) \<Rightarrow> Engine \<Rightarrow> Engine" where
  "updateSimulation nodes edges now dimensions rnd e =
     (let (dm, im) = calculateDepthsAndIslands nodes edges;
          currentNodeIds = set (map nodeId nodes);
          existingNodes = nodesById (store e) (simNodes e);
          (newSimNodes, st', c) =
             mergeNodes existingNodes (prevNodeIds e) dm im now dimensions rnd nodes (store e, 0);
          nodeMap = nodesById st' newSimNodes;
          newSimLinks = makeSimLinks nodeMap edges
      in e\<lparr>store := st', simNodes := newSimNodes, simLinks := newSimLinks,
            prevNodeIds := currentNodeIds\<rparr>)"

section \<open>Viewport transform and picking\<close>

text \<open>
  The render applies \<open>ctx.translate(transform.x, transform.y)\<close> and then
  \<open>ctx.scale(transform.k, transform.k)\<close>, so a simulation point is drawn at
  \<open>p * k + (x, y)\<close> on the surface. \<open>toSimulation\<close> is the conversion at the top of
  \<open>findNodeAtPosition\<close>.
\<close>

definition toScreen :: "ZoomTransform \<Rightarrow> real \<times> real \<Rightarrow> real \<times> real" where
  "toScreen t p = (fst p * transK t + transX t, snd p * transK t + transY t)"

definition toSimulation :: "ZoomTransform \<Rightarrow> real \<times> real \<Rightarrow> real \<times> real" where
  "toSimulation t p = ((fst p - transX t) / transK t, (snd p - transY t) / transK t)"

text \<open>\<open>node.x ?? 0\<close>\<close>

definition orZero :: "real option \<Rightarrow> real" where
  "orZero v = (case v of Some r \<Rightarrow> r | None \<Rightarrow> 0)"

definition hitDistance :: "SimNode \<Rightarrow> real \<Rightarrow> real \<Rightarrow> real" where
  "hitDistance node graphX graphY =
     (let dx = orZero (nodeX node) - graphX;
          dy = orZero (nodeY node) - graphY
      in sqrt (dx * dx + dy * dy))"

text \<open>The loop \<open>for (const node of simNodesRef.current)\<close> of \<open>findNodeAtPosition\<close>.\<close>

fun scanNodes :: "SimNode list \<Rightarrow> real \<Rightarrow> real \<Rightarrow> nat list \<Rightarrow> nat option" where
  "scanNodes st graphX graphY [] = None"
| "scanNodes st graphX graphY (r # rs) =
     (if hitDistance (st ! r) graphX graphY < HIT_RADIUS then Some r
      else scanNodes st graphX graphY rs)"

definition findNodeAtPosition :: "Engine \<Rightarrow> real \<Rightarrow> real \<Rightarrow> nat option" where
  "findNodeAtPosition e screenX screenY =
     (let (graphX, graphY) = toSimulation (transform e) (screenX, screenY)
      in scanNodes (store e) graphX graphY (simNodes e))"

text \<open>
  \<open>handleCanvasClick\<close>. \<open>rect\<close> is the canvas rectangle's \<open>(left, top)\<close>, absent when
  there is no canvas; \<open>hasHandler\<close> says whether the optional \<open>onNodeClick\<close> prop is
  given. The result is the node passed to \<open>setSelectedNode\<close> and the payload passed to
  \<open>onNodeClick\<close>, each \<open>None\<close> when the call is not made.
\<close>

definition handleCanvasClick ::
  "bool \<Rightarrow> (real \<times> real) option \<Rightarrow> bool \<Rightarrow> Engine \<Rightarrow> real \<Rightarrow> real \<Rightarrow> nat option \<times> GraphNode option" where
  "handleCanvasClick isExpanding rect hasHandler e clientX clientY =
     (if isExpanding then (None, None)
      else case rect of
        None \<Rightarrow> (None, None)
      | Some (rectLeft, rectTop) \<Rightarrow>
          (let x = clientX - rectLeft; y = clientY - rectTop in
           case findNodeAtPosition e x y of
             None \<Rightarrow> (None, None)
           | Some hitNode \<Rightarrow>
               (Some hitNode,
                if hasHandler
                then Some \<lparr>nodeId = nodeId (store e ! hitNode), label = label (store e ! hitNode),
                           nodeType = nodeType (store e ! hitNode),
                           reason = reason (store e ! hitNode)\<rparr>
                else None)))"

section \<open>The render loop: animation state and node colour\<close>

text \<open>
  The body of \<open>for (const node of simNodesRef.current)\<close> under "Update animations".
  \<open>hovered\<close> and \<open>selected\<close> are the ids of \<open>hoveredNode\<close> and \<open>selectedNode\<close>
  (absent when null), \<open>dt\<close> the milliseconds since the previous frame.
  \<open>targetScale\<close> and \<open>targetGlow\<close> are the local variables of that name.
\<close>

definition targetScale :: "string option \<Rightarrow> string option \<Rightarrow> SimNode \<Rightarrow> real" where
  "targetScale hovered expandingNodeId node =
     (if expandingNodeId = Some (nodeId node) then 1.25
      else if hovered = Some (nodeId node) then 1.15 else 1)"

definition targetGlow ::
  "string option \<Rightarrow> string option \<Rightarrow> string option \<Rightarrow> SimNode \<Rightarrow> real" where
  "targetGlow hovered selected expandingNodeId node =
     (if expandingNodeId = Some (nodeId node) then 0.9
      else if selected = Some (nodeId node) then 0.85
      else if hovered = Some (nodeId node) then 0.7 else 0.4)"

definition animateNode ::
  "int \<Rightarrow> int \<Rightarrow> string option \<Rightarrow> string option \<Rightarrow> string option \<Rightarrow> SimNode \<Rightarrow> SimNode" where
  "animateNode now dt hovered selected expandingNodeId node =
     (let n1 = (if entranceProgress node < 1
                then node\<lparr>entranceProgress :=
                       min 1 (real_of_int (now - entranceStartTime node) / 600)\<rparr>
                else node);
          isSelected = (selected = Some (nodeId node));
          isNodeExpanding = (expandingNodeId = Some (nodeId node));
          n2 = n1\<lparr>scale := scale n1 + (targetScale hovered expandingNodeId node - scale n1) * 0.2\<rparr>;
          n3 = n2\<lparr>glowIntensity := glowIntensity n2
                  + (targetGlow hovered selected expandingNodeId node - glowIntensity n2) * 0.2\<rparr>
      in if isNodeExpanding \<or> isSelected
         then n3\<lparr>pulsePhase := pulsePhase n3
                    + real_of_int dt / (if isNodeExpanding then 1200 else 3000) * pi * 2\<rparr>
         else n3)"

fun updateAnimations ::
  "int \<Rightarrow> int \<Rightarrow> string option \<Rightarrow> string option \<Rightarrow> string option \<Rightarrow> nat list \<Rightarrow> SimNode list
    \<Rightarrow> SimNode list" where
  "updateAnimations now dt hovered selected expandingNodeId [] st = st"
| "updateAnimations now dt hovered selected expandingNodeId (r # rs) st =
     updateAnimations now dt hovered selected expandingNodeId rs
       (st[r := animateNode now dt hovered selected expandingNodeId (st ! r)])"

text \<open>
  Under "Draw nodes": a node whose entrance progress is not positive is skipped
  (\<open>None\<close>); otherwise its colour is the amber of the expanding node or the colour of
  its depth and island.
\<close>

definition drawnColor :: "string option \<Rightarrow> SimNode \<Rightarrow> Color option" where
  "drawnColor expandingNodeId node =
     (if entranceProgress node \<le> 0 then None
      else Some (if expandingNodeId = Some (nodeId node) then Hex ''#f59e0b''
                 else getColorByDepthAndIsland (depth node) (islandIndex node)))"

section \<open>Notions used to state the properties\<close>

text \<open>
  \<open>closedIn edges dm x\<close>: every edge that leaves \<open>x\<close> ends at an id with a depth.
  \<open>edgeRel\<close> is the edge list as a relation from source to target, and
  \<open>reachableFromRoots\<close> the ids that a root-type node reaches along edges followed
  from source to target (the root ids included).
\<close>

definition closedIn :: "GraphEdge list \<Rightarrow> depthMap \<Rightarrow> string \<Rightarrow> bool" where
  "closedIn edges dm x = (\<forall>e \<in> set edges. source e = x \<longrightarrow> target e \<in> dom dm)"

definition edgeRel :: "GraphEdge list \<Rightarrow> (string \<times> string) set" where
  "edgeRel edges = (\<lambda>e. (source e, target e)) ` set edges"

definition reachableFromRoots :: "GraphNode list \<Rightarrow> GraphEdge list \<Rightarrow> string set" where
  "reachableFromRoots nodes edges = (edgeRel edges)\<^sup>* `` (nodeId ` set (rootNodesOf nodes))"

text \<open>
  \<open>sameBody a b\<close>: \<open>b\<close> differs from \<open>a\<close> at most in label, type, reason, depth
  and island index. \<open>wfEngine\<close> is the invariant of the refs: every reference of
  \<open>simNodes\<close> points into the store, and \<open>prevNodeIds\<close> is the set of the ids of
  those nodes (the update effect assigns both from the same node list).
  \<open>knownRefs ex st\<close>: the lookup map \<open>ex\<close> sends an id to an object of the store with
  that id. \<open>consistentNode\<close>: depth and island index are the entries of the maps for
  the node's id, 0 when there is none. \<open>forgetTopology\<close> blanks depth and island index.
\<close>

definition sameBody :: "SimNode \<Rightarrow> SimNode \<Rightarrow> bool" where
  "sameBody a b =
     (b = a\<lparr>label := label b, nodeType := nodeType b, reason := reason b,
            depth := depth b, islandIndex := islandIndex b\<rparr>)"

definition wfEngine :: "Engine \<Rightarrow> bool" where
  "wfEngine e =
     ((\<forall>r \<in> set (simNodes e). r < length (store e))
      \<and> prevNodeIds e = set (map (\<lambda>r. nodeId (store e ! r)) (simNodes e)))"

definition knownRefs :: "(string \<rightharpoonup> nat) \<Rightarrow> SimNode list \<Rightarrow> bool" where
  "knownRefs ex st = (\<forall>k r. ex k = Some r \<longrightarrow> r < length st \<and> nodeId (st ! r) = k)"

definition consistentNode :: "depthMap \<Rightarrow> islandMap \<Rightarrow> SimNode \<Rightarrow> bool" where
  "consistentNode dm im n =
     (depth n = getOrZero dm (nodeId n) \<and> islandIndex n = getOrZero im (nodeId n))"

definition forgetTopology :: "SimNode \<Rightarrow> SimNode" where
  "forgetTopology n = n\<lparr>depth := 0, islandIndex := 0\<rparr>"

text \<open>
  \<open>renderFrames\<close> runs the animation step of one node over a list of frames, each with
  its time \<open>now\<close> and its \<open>dt\<close>, while hover, selection and expanding node stay the
  same.
\<close>

fun renderFrames ::
  "(int \<times> int) list \<Rightarrow> string option \<Rightarrow> string option \<Rightarrow> string option \<Rightarrow> SimNode \<Rightarrow> SimNode" where
  "renderFrames [] hovered selected expandingNodeId node = node"
| "renderFrames ((now, dt) # frames) hovered selected expandingNodeId node =
     renderFrames frames hovered selected expandingNodeId
       (animateNode now dt hovered selected expandingNodeId node)"

text \<open>A settled node at a given position, for the concrete instances below.\<close>

definition exampleNode :: "string \<Rightarrow> real \<Rightarrow> real \<Rightarrow> SimNode" where
  "exampleNode i px py =
     \<lparr>nodeId = i, label = i, nodeType = Generated, reason = None, depth = 1, islandIndex = 0,
      nodeX = Some px, nodeY = Some py, nodeVx = Some 0, nodeVy = Some 0,
      entranceProgress = 1, entranceStartTime = 0, scale = 1, glowIntensity = 0.4,
      pulsePhase = 0\<rparr>"

text \<open>Nodes, dimensions, a source of random numbers and an engine for the instances.\<close>

definition rootA :: GraphNode where
  "rootA = \<lparr>nodeId = ''A'', label = ''Alpha'', nodeType = Root, reason = None\<rparr>"

definition genB :: GraphNode where
  "genB = \<lparr>nodeId = ''B'', label = ''Beta'', nodeType = Generated, reason = Some ''child''\<rparr>"

definition exampleDims :: Dimensions where
  "exampleDims = \<lparr>width = 800, height = 600\<rparr>"

definition exampleRnd :: "nat \<Rightarrow> real" where
  "exampleRnd c = (if c < 3 then 0 else 9 / 10)"

definition engineAB :: Engine where
  "engineAB = updateSimulation [rootA, genB]
     [\<lparr>source = ''A'', target = ''B'', edgeLabel = None\<rparr>] 1000 exampleDims exampleRnd
     initialEngine"

section \<open>Topology analysis: auxiliary facts\<close>

lemma visitChildren_dom:
  "visitChildren cs d i (dm, im, q) = (dm', im', q') \<Longrightarrow>
   dom dm' = dom dm \<union> set cs \<and> fst ` set q' = fst ` set q \<union> (set cs - dom dm)
   \<and> (dom im = dom dm \<longrightarrow> dom im' = dom dm')"
proof (induction cs arbitrary: dm im q)
  case Nil
  then show ?case by simp
next
  case (Cons c cs)
  show ?case
  proof (cases "dm c = None")
    case True
    have v: "visitChildren cs d i (dm(c \<mapsto> d + 1), im(c \<mapsto> i), q @ [(c, d + 1)]) = (dm', im', q')"
      using Cons.prems(1) True by simp
    have nc: "c \<notin> dom dm" using True by (simp add: domIff)
    have h: "dom dm' = dom (dm(c \<mapsto> d + 1)) \<union> set cs
        \<and> fst ` set q' = fst ` set (q @ [(c, d + 1)]) \<union> (set cs - dom (dm(c \<mapsto> d + 1)))
        \<and> (dom (im(c \<mapsto> i)) = dom (dm(c \<mapsto> d + 1)) \<longrightarrow> dom im' = dom dm')"
      by (rule Cons.IH [OF v])
    have h1: "dom dm' = insert c (dom dm) \<union> set cs" using h by simp
    have h2: "fst ` set q' = insert c (fst ` set q) \<union> (set cs - insert c (dom dm))"
      using h by simp
    have h3: "dom im = dom dm \<longrightarrow> dom im' = dom dm'" using h by simp
    have "dom dm' = dom dm \<union> set (c # cs)" using h1 by auto
    moreover have "fst ` set q' = fst ` set q \<union> (set (c # cs) - dom dm)"
      using h2 nc by auto
    ultimately show ?thesis using h3 by blast
  next
    case False
    have v: "visitChildren cs d i (dm, im, q) = (dm', im', q')"
      using Cons.prems(1) False by (simp del: not_None_eq)
    have ic: "c \<in> dom dm" using False by (simp add: domIff)
    note h = Cons.IH [OF v]
    have "dom dm' = dom dm \<union> set (c # cs)" using h ic by auto
    moreover have "fst ` set q' = fst ` set q \<union> (set (c # cs) - dom dm)"
      using h ic by auto
    ultimately show ?thesis using h by blast
  qed
qed

lemma closedIn_mono: "closedIn edges dm x \<Longrightarrow> dom dm \<subseteq> dom dm' \<Longrightarrow> closedIn edges dm' x"
  by (auto simp: closedIn_def)

lemma bfsLoop_closed:
  "bfsLoop edges i st = (dm', im') \<Longrightarrow>
   (\<forall>x \<in> dom (fst st). x \<in> fst ` set (snd (snd st)) \<or> closedIn edges (fst st) x) \<Longrightarrow>
   (\<forall>x \<in> dom dm'. closedIn edges dm' x) \<and> dom (fst st) \<subseteq> dom dm'
   \<and> (dom (fst (snd st)) = dom (fst st) \<longrightarrow> dom im' = dom dm')"
proof (induction edges i st rule: bfsLoop.induct)
  case (1 edges i dm im)
  then show ?case by simp
next
  case (2 edges i dm im current queue)
  obtain dm1 im1 q1 where
    v: "visitChildren (childrenOf edges (fst current)) (snd current) i (dm, im, queue) = (dm1, im1, q1)"
    by (metis prod_cases3)
  note d = visitChildren_dom [OF v]
  have b: "bfsLoop edges i (dm1, im1, q1) = (dm', im')" using "2.prems"(1) v by simp
  have cur: "closedIn edges dm1 (fst current)"
    using d by (auto simp: closedIn_def childrenOf_def)
  have inv: "\<forall>x \<in> dom (fst (dm1, im1, q1)).
      x \<in> fst ` set (snd (snd (dm1, im1, q1))) \<or> closedIn edges (fst (dm1, im1, q1)) x"
  proof
    fix x assume x: "x \<in> dom (fst (dm1, im1, q1))"
    show "x \<in> fst ` set (snd (snd (dm1, im1, q1))) \<or> closedIn edges (fst (dm1, im1, q1)) x"
    proof (cases "x \<in> dom dm")
      case True
      then have "x = fst current \<or> x \<in> fst ` set queue \<or> closedIn edges dm x"
        using "2.prems"(2) by auto
      then show ?thesis using cur d closedIn_mono [of edges dm x dm1] by auto
    next
      case False
      then show ?thesis using x d by auto
    qed
  qed
  from "2.IH" [unfolded v, OF b inv] d show ?case by auto
qed

lemma forEachRoot_closed:
  "forEachRoot edges roots i (dm, im) = (dm', im') \<Longrightarrow>
   (\<forall>x \<in> dom dm. closedIn edges dm x) \<Longrightarrow>
   (\<forall>x \<in> dom dm'. closedIn edges dm' x) \<and> dom dm \<union> nodeId ` set roots \<subseteq> dom dm'
   \<and> (dom im = dom dm \<longrightarrow> dom im' = dom dm')"
proof (induction roots arbitrary: i dm im)
  case Nil
  then show ?case by simp
next
  case (Cons r rs)
  obtain dm1 im1 where
    b: "bfsLoop edges i (dm(nodeId r \<mapsto> 0), im(nodeId r \<mapsto> i), [(nodeId r, 0)]) = (dm1, im1)"
    by (metis prod.exhaust)
  have inv: "\<forall>x \<in> dom (fst (dm(nodeId r \<mapsto> 0), im(nodeId r \<mapsto> i), [(nodeId r, 0)])).
      x \<in> fst ` set (snd (snd (dm(nodeId r \<mapsto> 0), im(nodeId r \<mapsto> i), [(nodeId r, 0)])))
      \<or> closedIn edges (fst (dm(nodeId r \<mapsto> 0), im(nodeId r \<mapsto> i), [(nodeId r, 0)])) x"
    using Cons.prems(2) closedIn_mono [of edges dm _ "dm(nodeId r \<mapsto> 0)"] by auto
  note c = bfsLoop_closed [OF b inv]
  have f: "forEachRoot edges rs (Suc i) (dm1, im1) = (dm', im')" using Cons.prems(1) b by simp
  have c1: "\<forall>x \<in> dom dm1. closedIn edges dm1 x" using c by simp
  have c2: "insert (nodeId r) (dom dm) \<subseteq> dom dm1" using c by simp
  have c3: "dom im = dom dm \<longrightarrow> dom im1 = dom dm1" using c by simp
  note h = Cons.IH [OF f c1]
  have h1: "\<forall>x \<in> dom dm'. closedIn edges dm' x" using h by simp
  have h2: "dom dm1 \<union> nodeId ` set rs \<subseteq> dom dm'" using h by simp
  have h3: "dom im1 = dom dm1 \<longrightarrow> dom im' = dom dm'" using h by simp
  have "dom dm \<union> nodeId ` set (r # rs) \<subseteq> dom dm'" using c2 h2 by auto
  moreover have "dom im = dom dm \<longrightarrow> dom im' = dom dm'" using c3 h3 by blast
  ultimately show ?case using h1 by blast
qed

lemma calculate_closed:
  assumes "calculateDepthsAndIslands nodes edges = (dm, im)"
  shows "(\<forall>x \<in> dom dm. closedIn edges dm x) \<and> nodeId ` set (rootNodesOf nodes) \<subseteq> dom dm
    \<and> dom im = dom dm"
proof (cases "rootNodesOf nodes = []")
  case True
  then show ?thesis using assms by (auto simp: calculateDepthsAndIslands_def)
next
  case False
  then have "calculateDepthsAndIslands nodes edges
      = forEachRoot edges (rootNodesOf nodes) 0 (Map.empty, Map.empty)"
    by (simp add: calculateDepthsAndIslands_def)
  then have f: "forEachRoot edges (rootNodesOf nodes) 0 (Map.empty, Map.empty) = (dm, im)"
    using assms by simp
  from forEachRoot_closed [OF f] show ?thesis by simp
qed

lemma bfsLoop_sound:
  "bfsLoop edges i st = (dm', im') \<Longrightarrow>
   (\<forall>e \<in> set edges. source e \<in> R \<longrightarrow> target e \<in> R) \<Longrightarrow>
   dom (fst st) \<subseteq> R \<Longrightarrow> fst ` set (snd (snd st)) \<subseteq> R \<Longrightarrow> dom dm' \<subseteq> R"
proof (induction edges i st rule: bfsLoop.induct)
  case (1 edges i dm im)
  then show ?case by simp
next
  case (2 edges i dm im current queue)
  obtain dm1 im1 q1 where
    v: "visitChildren (childrenOf edges (fst current)) (snd current) i (dm, im, queue) = (dm1, im1, q1)"
    by (metis prod_cases3)
  note d = visitChildren_dom [OF v]
  have b: "bfsLoop edges i (dm1, im1, q1) = (dm', im')" using "2.prems"(1) v by simp
  have cs: "set (childrenOf edges (fst current)) \<subseteq> R"
    using "2.prems"(2,4) by (auto simp: childrenOf_def)
  have d1: "dom (fst (dm1, im1, q1)) \<subseteq> R" using d cs "2.prems"(3) by auto
  have q1: "fst ` set (snd (snd (dm1, im1, q1))) \<subseteq> R" using d cs "2.prems"(4) by auto
  from "2.IH" [unfolded v, OF b "2.prems"(2) d1 q1] show ?case .
qed

lemma forEachRoot_sound:
  "forEachRoot edges roots i (dm, im) = (dm', im') \<Longrightarrow>
   (\<forall>e \<in> set edges. source e \<in> R \<longrightarrow> target e \<in> R) \<Longrightarrow>
   dom dm \<subseteq> R \<Longrightarrow> nodeId ` set roots \<subseteq> R \<Longrightarrow> dom dm' \<subseteq> R"
proof (induction roots arbitrary: i dm im)
  case Nil
  then show ?case by simp
next
  case (Cons r rs)
  obtain dm1 im1 where
    b: "bfsLoop edges i (dm(nodeId r \<mapsto> 0), im(nodeId r \<mapsto> i), [(nodeId r, 0)]) = (dm1, im1)"
    by (metis prod.exhaust)
  have "dom dm1 \<subseteq> R"
    using bfsLoop_sound [OF b Cons.prems(2)] Cons.prems(3,4) by simp
  moreover have f: "forEachRoot edges rs (Suc i) (dm1, im1) = (dm', im')" using Cons.prems(1) b by simp
  ultimately show ?case using Cons.IH [OF f Cons.prems(2)] Cons.prems(4) by simp
qed

lemma calculate_sound:
  assumes "calculateDepthsAndIslands nodes edges = (dm, im)"
  shows "dom dm \<subseteq> reachableFromRoots nodes edges"
proof (cases "rootNodesOf nodes = []")
  case True
  then show ?thesis using assms by (auto simp: calculateDepthsAndIslands_def)
next
  case False
  then have "calculateDepthsAndIslands nodes edges
      = forEachRoot edges (rootNodesOf nodes) 0 (Map.empty, Map.empty)"
    by (simp add: calculateDepthsAndIslands_def)
  then have f: "forEachRoot edges (rootNodesOf nodes) 0 (Map.empty, Map.empty) = (dm, im)"
    using assms by simp
  have cl: "\<forall>e \<in> set edges. source e \<in> reachableFromRoots nodes edges
      \<longrightarrow> target e \<in> reachableFromRoots nodes edges"
  proof (intro ballI impI)
    fix e assume e: "e \<in> set edges" and s: "source e \<in> reachableFromRoots nodes edges"
    have "(source e, target e) \<in> edgeRel edges" using e by (auto simp: edgeRel_def)
    then show "target e \<in> reachableFromRoots nodes edges"
      using s unfolding reachableFromRoots_def by (auto intro: rtrancl_into_rtrancl)
  qed
  have rt: "nodeId ` set (rootNodesOf nodes) \<subseteq> reachableFromRoots nodes edges"
    unfolding reachableFromRoots_def by auto
  from forEachRoot_sound [OF f cl _ rt] show ?thesis by simp
qed

lemma calculate_complete:
  assumes "calculateDepthsAndIslands nodes edges = (dm, im)"
  shows "reachableFromRoots nodes edges \<subseteq> dom dm"
proof
  fix x assume "x \<in> reachableFromRoots nodes edges"
  then obtain r where r: "r \<in> nodeId ` set (rootNodesOf nodes)" and p: "(r, x) \<in> (edgeRel edges)\<^sup>*"
    unfolding reachableFromRoots_def by auto
  note c = calculate_closed [OF assms]
  from p show "x \<in> dom dm"
  proof (induction rule: rtrancl_induct)
    case base
    then show ?case using r c by auto
  next
    case (step y z)
    then show ?case using c by (auto simp: edgeRel_def closedIn_def)
  qed
qed



lemma visitChildren_keeps:
  "visitChildren cs d i (dm, im, q) = (dm', im', q') \<Longrightarrow> dm x \<noteq> None \<Longrightarrow>
   dm' x = dm x \<and> im' x = im x"
proof (induction cs arbitrary: dm im q)
  case Nil
  then show ?case by simp
next
  case (Cons c cs)
  show ?case
  proof (cases "dm c = None")
    case True
    then have ne: "x \<noteq> c" using Cons.prems(2) by auto
    have v: "visitChildren cs d i (dm(c \<mapsto> d + 1), im(c \<mapsto> i), q @ [(c, d + 1)]) = (dm', im', q')"
      using Cons.prems(1) True by simp
    have "(dm(c \<mapsto> d + 1)) x \<noteq> None" using Cons.prems(2) ne by simp
    from Cons.IH [OF v this] show ?thesis using ne by simp
  next
    case False
    have v: "visitChildren cs d i (dm, im, q) = (dm', im', q')"
      using Cons.prems(1) False by (simp del: not_None_eq)
    from Cons.IH [OF v Cons.prems(2)] show ?thesis .
  qed
qed

lemma bfsLoop_keeps:
  "bfsLoop edges i st = (dm', im') \<Longrightarrow> fst st x \<noteq> None \<Longrightarrow>
   dm' x = fst st x \<and> im' x = fst (snd st) x"
proof (induction edges i st rule: bfsLoop.induct)
  case (1 edges i dm im)
  then show ?case by simp
next
  case (2 edges i dm im current queue)
  obtain dm1 im1 q1 where
    v: "visitChildren (childrenOf edges (fst current)) (snd current) i (dm, im, queue) = (dm1, im1, q1)"
    by (metis prod_cases3)
  have k: "dm1 x = dm x \<and> im1 x = im x"
    using visitChildren_keeps [OF v] "2.prems"(2) by simp
  have b: "bfsLoop edges i (dm1, im1, q1) = (dm', im')" using "2.prems"(1) v by simp
  have "dm' x = fst (dm1, im1, q1) x \<and> im' x = fst (snd (dm1, im1, q1)) x"
    using "2.IH" [unfolded v, OF b] k "2.prems"(2) by simp
  then show ?case using k by simp
qed

lemma forEachRoot_keeps:
  "forEachRoot edges roots i (dm, im) = (dm', im') \<Longrightarrow> dm x \<noteq> None \<Longrightarrow>
   x \<notin> nodeId ` set roots \<Longrightarrow> dm' x = dm x \<and> im' x = im x"
proof (induction roots arbitrary: i dm im)
  case Nil
  then show ?case by simp
next
  case (Cons r rs)
  obtain dm1 im1 where
    b: "bfsLoop edges i (dm(nodeId r \<mapsto> 0), im(nodeId r \<mapsto> i), [(nodeId r, 0)]) = (dm1, im1)"
    by (metis prod.exhaust)
  have ne: "x \<noteq> nodeId r" using Cons.prems(3) by auto
  have k: "dm1 x = dm x \<and> im1 x = im x"
    using bfsLoop_keeps [OF b, of x] Cons.prems(2) ne by simp
  have f: "forEachRoot edges rs (Suc i) (dm1, im1) = (dm', im')" using Cons.prems(1) b by simp
  have "dm' x = dm1 x \<and> im' x = im1 x"
    using Cons.IH [OF f] k Cons.prems(2,3) by simp
  then show ?case using k by simp
qed

lemma forEachRoot_append:
  "forEachRoot edges (rs1 @ rs2) i st = forEachRoot edges rs2 (i + length rs1) (forEachRoot edges rs1 i st)"
proof (induction rs1 arbitrary: i st)
  case Nil then show ?case by simp
next
  case (Cons r rs1)
  obtain dm im where st: "st = (dm, im)" by (cases st)
  show ?case unfolding st by (simp add: Cons.IH)
qed

lemma bfsLoop_seed:
  "bfsLoop edges i (dm(r \<mapsto> 0), im(r \<mapsto> i), q) = (dm', im') \<Longrightarrow> dm' r = Some 0 \<and> im' r = Some i"
  using bfsLoop_keeps [where st = "(dm(r \<mapsto> 0), im(r \<mapsto> i), q)" and x = r] by simp

lemma forEachRoot_root_depth:
  "forEachRoot edges roots i (dm, im) = (dm', im') \<Longrightarrow> x \<in> nodeId ` set roots \<Longrightarrow> dm' x = Some 0"
proof (induction roots arbitrary: i dm im)
  case Nil
  then show ?case by simp
next
  case (Cons a rs)
  obtain dm1 im1 where
    b: "bfsLoop edges i (dm(nodeId a \<mapsto> 0), im(nodeId a \<mapsto> i), [(nodeId a, 0)]) = (dm1, im1)"
    by (metis prod.exhaust)
  have f: "forEachRoot edges rs (Suc i) (dm1, im1) = (dm', im')" using Cons.prems(1) b by simp
  show ?case
  proof (cases "x \<in> nodeId ` set rs")
    case True
    from Cons.IH [OF f True] show ?thesis .
  next
    case False
    then have xa: "x = nodeId a" using Cons.prems(2) by auto
    have "dm1 x = Some 0" using bfsLoop_seed [OF b] xa by simp
    with forEachRoot_keeps [OF f _ False] show ?thesis by simp
  qed
qed


lemma forEachRoot_root_island:
  "forEachRoot edges roots i (dm, im) = (dm', im') \<Longrightarrow> x \<in> nodeId ` set roots \<Longrightarrow>
   \<exists>j < length roots. nodeId (roots ! j) = x \<and> im' x = Some (i + j)"
proof (induction roots arbitrary: i dm im)
  case Nil
  then show ?case by simp
next
  case (Cons a rs)
  obtain dm1 im1 where
    b: "bfsLoop edges i (dm(nodeId a \<mapsto> 0), im(nodeId a \<mapsto> i), [(nodeId a, 0)]) = (dm1, im1)"
    by (metis prod.exhaust)
  have f: "forEachRoot edges rs (Suc i) (dm1, im1) = (dm', im')" using Cons.prems(1) b by simp
  show ?case
  proof (cases "x \<in> nodeId ` set rs")
    case True
    from Cons.IH [OF f True] obtain j where
      j: "j < length rs" "nodeId (rs ! j) = x" "im' x = Some (Suc i + j)" by blast
    then have "Suc j < length (a # rs) \<and> nodeId ((a # rs) ! Suc j) = x \<and> im' x = Some (i + Suc j)"
      by simp
    then show ?thesis by blast
  next
    case False
    then have xa: "x = nodeId a" using Cons.prems(2) by auto
    have s: "dm1 x = Some 0 \<and> im1 x = Some i" using bfsLoop_seed [OF b] xa by simp
    then have "im' x = Some i" using forEachRoot_keeps [OF f _ False] by simp
    then have "0 < length (a # rs) \<and> nodeId ((a # rs) ! 0) = x \<and> im' x = Some (i + 0)"
      using xa by simp
    then show ?thesis by blast
  qed
qed

lemma calculate_split:
  assumes "rootNodesOf nodes = earlier @ later"
  shows "calculateDepthsAndIslands nodes edges
    = forEachRoot edges later (length earlier) (forEachRoot edges earlier 0 (Map.empty, Map.empty))"
proof (cases "rootNodesOf nodes = []")
  case True
  then show ?thesis using assms by (simp add: calculateDepthsAndIslands_def)
next
  case False
  then have "calculateDepthsAndIslands nodes edges
      = forEachRoot edges (rootNodesOf nodes) 0 (Map.empty, Map.empty)"
    by (simp add: calculateDepthsAndIslands_def)
  then show ?thesis using assms by (simp add: forEachRoot_append)
qed

section \<open>Viewport, picking and animation: auxiliary facts\<close>

lemma scanNodes_find:
  "scanNodes st gx gy refs = List.find (\<lambda>r. hitDistance (st ! r) gx gy < HIT_RADIUS) refs"
  by (induction refs) auto

lemma scanNodes_first_hit:
  assumes "\<forall>j \<in> set pre. \<not> hitDistance (st ! j) gx gy < HIT_RADIUS"
    and "hitDistance (st ! r) gx gy < HIT_RADIUS"
  shows "scanNodes st gx gy (pre @ r # post) = Some r"
  using assms by (induction pre) auto

lemma sqrt_less_40: "sqrt a < 40 \<longleftrightarrow> a < 1600"
proof -
  have "sqrt 1600 = 40" using real_sqrt_abs [of 40] by simp
  then show ?thesis using real_sqrt_less_iff [of a 1600] by simp
qed

lemma hit_iff:
  "hitDistance n gx gy < HIT_RADIUS \<longleftrightarrow>
   (orZero (nodeX n) - gx) * (orZero (nodeX n) - gx)
     + (orZero (nodeY n) - gy) * (orZero (nodeY n) - gy) < 1600"
  by (simp add: hitDistance_def HIT_RADIUS_def Let_def sqrt_less_40)

lemma hitDistance_self: "hitDistance n (orZero (nodeX n)) (orZero (nodeY n)) = 0"
  by (simp add: hitDistance_def)

lemma toSimulation_toScreen: "transK t \<noteq> 0 \<Longrightarrow> toSimulation t (toScreen t p) = p"
  by (simp add: toSimulation_def toScreen_def)

lemma toScreen_toSimulation: "transK t \<noteq> 0 \<Longrightarrow> toScreen t (toSimulation t p) = p"
  by (simp add: toSimulation_def toScreen_def)

lemma animateNode_scale:
  "scale (animateNode now dt hovered selected expandingNodeId node)
   = scale node
     + ((if expandingNodeId = Some (nodeId node) then 1.25
         else if hovered = Some (nodeId node) then 1.15 else 1) - scale node) * 0.2"
  by (simp add: animateNode_def Let_def targetScale_def)

lemma animateNode_nodeId:
  "nodeId (animateNode now dt hovered selected expandingNodeId node) = nodeId node"
  by (simp add: animateNode_def Let_def)

section \<open>The update effect: auxiliary facts\<close>

lemma sameBody_refl: "sameBody a a"
  by (simp add: sameBody_def)

lemma sameBody_fields:
  "sameBody a b \<Longrightarrow>
   nodeId b = nodeId a \<and> nodeX b = nodeX a \<and> nodeY b = nodeY a \<and> nodeVx b = nodeVx a
   \<and> nodeVy b = nodeVy a \<and> entranceProgress b = entranceProgress a
   \<and> entranceStartTime b = entranceStartTime a \<and> scale b = scale a
   \<and> glowIntensity b = glowIntensity a \<and> pulsePhase b = pulsePhase a"
  by (cases a, cases b) (simp add: sameBody_def)

lemma sameBody_trans: "sameBody a b \<Longrightarrow> sameBody b c \<Longrightarrow> sameBody a c"
  by (cases a, cases b, cases c) (simp add: sameBody_def)

lemma sameBody_updateExisting: "sameBody a (updateExisting dm im node a)"
  by (cases a) (simp add: sameBody_def updateExisting_def)

lemma mergeNode_existing:
  "ex (nodeId node) = Some r \<Longrightarrow>
   mergeNode ex prevIds dm im now dims rnd node sc
   = (r, (fst sc)[r := updateExisting dm im node (fst sc ! r)], snd sc)"
  by (simp add: mergeNode_def)

lemma mergeNode_fresh:
  "ex (nodeId node) = None \<Longrightarrow>
   mergeNode ex prevIds dm im now dims rnd node sc
   = (length (fst sc), fst sc @ [createSimNode prevIds dm im now dims rnd (snd sc) node],
      snd sc + 3)"
  by (simp add: mergeNode_def)

lemma mergeNodes_ConsE:
  assumes "mergeNodes ex prevIds dm im now dims rnd (node # rest) sc = (rs, sc')"
  obtains r sc1 rs1 where
    "mergeNode ex prevIds dm im now dims rnd node sc = (r, sc1)"
    "mergeNodes ex prevIds dm im now dims rnd rest sc1 = (rs1, sc')"
    "rs = r # rs1"
  using assms by (auto split: prod.splits)

lemma mergeNode_step:
  assumes "mergeNode ex prevIds dm im now dims rnd node sc = (r, sc1)"
    and "knownRefs ex (fst sc)"
  shows "length (fst sc) \<le> length (fst sc1)"
    and "\<forall>j < length (fst sc). sameBody (fst sc ! j) (fst sc1 ! j)"
    and "\<forall>j < length (fst sc). ex (nodeId node) \<noteq> Some j \<longrightarrow> fst sc1 ! j = fst sc ! j"
    and "r < length (fst sc1)"
    and "\<And>r'. ex (nodeId node) = Some r' \<Longrightarrow> r = r'"
    and "\<And>r'. ex (nodeId node) = Some r' \<Longrightarrow>
           fst sc1 ! r' = updateExisting dm im node (fst sc ! r')"
    and "ex (nodeId node) = None \<Longrightarrow> r = length (fst sc)"
    and "ex (nodeId node) = None \<Longrightarrow>
           fst sc1 ! length (fst sc) = createSimNode prevIds dm im now dims rnd (snd sc) node"
    and "knownRefs ex (fst sc1)"
proof -
  show len: "length (fst sc) \<le> length (fst sc1)"
    using assms(1) by (cases "ex (nodeId node)") (auto simp: mergeNode_existing mergeNode_fresh)
  show body: "\<forall>j < length (fst sc). sameBody (fst sc ! j) (fst sc1 ! j)"
    using assms
    by (cases "ex (nodeId node)")
       (auto simp: mergeNode_existing mergeNode_fresh nth_append nth_list_update
          sameBody_refl sameBody_updateExisting knownRefs_def)
  show "\<forall>j < length (fst sc). ex (nodeId node) \<noteq> Some j \<longrightarrow> fst sc1 ! j = fst sc ! j"
    using assms(1)
    by (cases "ex (nodeId node)")
       (auto simp: mergeNode_existing mergeNode_fresh nth_append nth_list_update)
  show "r < length (fst sc1)"
    using assms by (cases "ex (nodeId node)")
       (auto simp: mergeNode_existing mergeNode_fresh knownRefs_def)
  show "\<And>r'. ex (nodeId node) = Some r' \<Longrightarrow> r = r'"
    using assms by (auto simp: mergeNode_existing)
  show "\<And>r'. ex (nodeId node) = Some r' \<Longrightarrow>
           fst sc1 ! r' = updateExisting dm im node (fst sc ! r')"
    using assms by (auto simp: mergeNode_existing knownRefs_def)
  show "ex (nodeId node) = None \<Longrightarrow> r = length (fst sc)"
    using assms by (auto simp: mergeNode_fresh)
  show "ex (nodeId node) = None \<Longrightarrow>
           fst sc1 ! length (fst sc) = createSimNode prevIds dm im now dims rnd (snd sc) node"
    using assms by (auto simp: mergeNode_fresh)
  show "knownRefs ex (fst sc1)"
    unfolding knownRefs_def
  proof (intro allI impI)
    fix k r0 assume "ex k = Some r0"
    then have a: "r0 < length (fst sc)" "nodeId (fst sc ! r0) = k"
      using assms(2) by (auto simp: knownRefs_def)
    have "sameBody (fst sc ! r0) (fst sc1 ! r0)" using a(1) body by blast
    then have "nodeId (fst sc1 ! r0) = k" using sameBody_fields [of "fst sc ! r0"] a(2) by simp
    then show "r0 < length (fst sc1) \<and> nodeId (fst sc1 ! r0) = k" using a(1) len by simp
  qed
qed

lemma mergeNodes_basic:
  assumes "mergeNodes ex prevIds dm im now dims rnd nodes sc = (rs, sc')"
    and "knownRefs ex (fst sc)"
  shows "length rs = length nodes \<and> length (fst sc) \<le> length (fst sc')
    \<and> knownRefs ex (fst sc')
    \<and> (\<forall>j < length (fst sc). sameBody (fst sc ! j) (fst sc' ! j))
    \<and> (\<forall>j < length (fst sc). (\<forall>n \<in> set nodes. ex (nodeId n) \<noteq> Some j)
          \<longrightarrow> fst sc' ! j = fst sc ! j)"
  using assms
proof (induction nodes arbitrary: sc rs)
  case Nil
  then show ?case by (auto simp: sameBody_refl)
next
  case (Cons node rest)
  from Cons.prems(1) obtain r sc1 rs1 where
    m1: "mergeNode ex prevIds dm im now dims rnd node sc = (r, sc1)" and
    m2: "mergeNodes ex prevIds dm im now dims rnd rest sc1 = (rs1, sc')" and
    rs: "rs = r # rs1"
    by (rule mergeNodes_ConsE)
  note st = mergeNode_step [OF m1 Cons.prems(2)]
  note ih = Cons.IH [OF m2 st(9)]
  have len: "length (fst sc) \<le> length (fst sc')" using st(1) ih by simp
  have body: "\<forall>j < length (fst sc). sameBody (fst sc ! j) (fst sc' ! j)"
  proof (intro allI impI)
    fix j assume j: "j < length (fst sc)"
    then have "sameBody (fst sc ! j) (fst sc1 ! j)" using st(2) by blast
    moreover have "sameBody (fst sc1 ! j) (fst sc' ! j)" using j st(1) ih by simp
    ultimately show "sameBody (fst sc ! j) (fst sc' ! j)" by (rule sameBody_trans)
  qed
  have frame: "\<forall>j < length (fst sc). (\<forall>n \<in> set (node # rest). ex (nodeId n) \<noteq> Some j)
          \<longrightarrow> fst sc' ! j = fst sc ! j"
  proof (intro allI impI)
    fix j assume j: "j < length (fst sc)"
      and n: "\<forall>n \<in> set (node # rest). ex (nodeId n) \<noteq> Some j"
    have "fst sc1 ! j = fst sc ! j" using st(3) j n by simp
    moreover have "fst sc' ! j = fst sc1 ! j" using ih j st(1) n by simp
    ultimately show "fst sc' ! j = fst sc ! j" by simp
  qed
  show ?case using rs ih len body frame by simp
qed

lemma mergeNodes_refs:
  assumes "mergeNodes ex prevIds dm im now dims rnd nodes sc = (rs, sc')"
    and "knownRefs ex (fst sc)" and "i < length nodes"
  shows "rs ! i < length (fst sc') \<and> nodeId (fst sc' ! (rs ! i)) = nodeId (nodes ! i)
    \<and> (\<forall>r. ex (nodeId (nodes ! i)) = Some r \<longrightarrow> rs ! i = r)
    \<and> (ex (nodeId (nodes ! i)) = None \<longrightarrow> length (fst sc) \<le> rs ! i
         \<and> (\<exists>c. fst sc' ! (rs ! i) = createSimNode prevIds dm im now dims rnd c (nodes ! i)))"
  using assms
proof (induction nodes arbitrary: sc rs i)
  case Nil
  then show ?case by simp
next
  case (Cons node rest)
  from Cons.prems(1) obtain r sc1 rs1 where
    m1: "mergeNode ex prevIds dm im now dims rnd node sc = (r, sc1)" and
    m2: "mergeNodes ex prevIds dm im now dims rnd rest sc1 = (rs1, sc')" and
    rs: "rs = r # rs1"
    by (rule mergeNodes_ConsE)
  note st = mergeNode_step [OF m1 Cons.prems(2)]
  note bs = mergeNodes_basic [OF m2 st(9)]
  show ?case
  proof (cases i)
    case 0
    have r1: "r < length (fst sc')" using st(4) bs by simp
    have sb: "sameBody (fst sc1 ! r) (fst sc' ! r)" using st(4) bs by simp
    have id1: "nodeId (fst sc1 ! r) = nodeId node"
    proof (cases "ex (nodeId node)")
      case None
      then show ?thesis using st(7) st(8) by (simp add: createSimNode_def Let_def)
    next
      case (Some r')
      then have rr: "r = r'" and u: "fst sc1 ! r' = updateExisting dm im node (fst sc ! r')"
        using st(5) [of r'] st(6) [of r'] by simp_all
      have "nodeId (fst sc ! r') = nodeId node"
        using Some Cons.prems(2) by (simp add: knownRefs_def)
      then show ?thesis using u rr by (simp add: updateExisting_def)
    qed
    have id: "nodeId (fst sc' ! r) = nodeId node"
      using sameBody_fields [OF sb] id1 by simp
    have ex1: "\<forall>r'. ex (nodeId node) = Some r' \<longrightarrow> r = r'"
    proof (intro allI impI)
      fix r' assume "ex (nodeId node) = Some r'"
      then show "r = r'" using st(5) [of r'] by simp
    qed
    have fr: "ex (nodeId node) = None \<longrightarrow> length (fst sc) \<le> r
         \<and> (\<exists>c. fst sc' ! r = createSimNode prevIds dm im now dims rnd c node)"
    proof
      assume none: "ex (nodeId node) = None"
      then have r: "r = length (fst sc)"
        and c: "fst sc1 ! r = createSimNode prevIds dm im now dims rnd (snd sc) node"
        using st(7) st(8) by simp_all
      have "\<forall>n \<in> set rest. ex (nodeId n) \<noteq> Some r"
        using Cons.prems(2) r by (auto simp: knownRefs_def)
      then have "fst sc' ! r = fst sc1 ! r" using bs st(4) by simp
      then show "length (fst sc) \<le> r
         \<and> (\<exists>c. fst sc' ! r = createSimNode prevIds dm im now dims rnd c node)"
        using r c by auto
    qed
    show ?thesis using 0 rs r1 id ex1 fr by simp
  next
    case (Suc i')
    then have i': "i' < length rest" using Cons.prems(3) by simp
    note ih = Cons.IH [OF m2 st(9) i']
    show ?thesis using Suc rs ih st(1) by auto
  qed
qed

lemma mergeNodes_keeps_consistent:
  assumes "mergeNodes ex prevIds dm im now dims rnd nodes sc = (rs, sc')"
    and "knownRefs ex (fst sc)" and "j < length (fst sc)"
    and "consistentNode dm im (fst sc ! j)"
  shows "consistentNode dm im (fst sc' ! j)"
  using assms
proof (induction nodes arbitrary: sc rs)
  case Nil
  then show ?case by simp
next
  case (Cons node rest)
  from Cons.prems(1) obtain r sc1 rs1 where
    m1: "mergeNode ex prevIds dm im now dims rnd node sc = (r, sc1)" and
    m2: "mergeNodes ex prevIds dm im now dims rnd rest sc1 = (rs1, sc')" and
    rs: "rs = r # rs1"
    by (rule mergeNodes_ConsE)
  note st = mergeNode_step [OF m1 Cons.prems(2)]
  have j1: "j < length (fst sc1)" using Cons.prems(3) st(1) by simp
  have "consistentNode dm im (fst sc1 ! j)"
  proof (cases "ex (nodeId node) = Some j")
    case True
    then have u: "fst sc1 ! j = updateExisting dm im node (fst sc ! j)"
      using st(6) [of j] by simp
    have "nodeId (fst sc ! j) = nodeId node"
      using True Cons.prems(2) by (simp add: knownRefs_def)
    then show ?thesis using u by (simp add: consistentNode_def updateExisting_def)
  next
    case False
    then show ?thesis using st(3) Cons.prems(3,4) by simp
  qed
  from Cons.IH [OF m2 st(9) j1 this] show ?case .
qed

lemma mergeNodes_consistent:
  assumes "mergeNodes ex prevIds dm im now dims rnd nodes sc = (rs, sc')"
    and "knownRefs ex (fst sc)" and "i < length nodes"
  shows "consistentNode dm im (fst sc' ! (rs ! i))"
  using assms
proof (induction nodes arbitrary: sc rs i)
  case Nil
  then show ?case by simp
next
  case (Cons node rest)
  from Cons.prems(1) obtain r sc1 rs1 where
    m1: "mergeNode ex prevIds dm im now dims rnd node sc = (r, sc1)" and
    m2: "mergeNodes ex prevIds dm im now dims rnd rest sc1 = (rs1, sc')" and
    rs: "rs = r # rs1"
    by (rule mergeNodes_ConsE)
  note st = mergeNode_step [OF m1 Cons.prems(2)]
  show ?case
  proof (cases i)
    case 0
    have "consistentNode dm im (fst sc1 ! r)"
    proof (cases "ex (nodeId node)")
      case None
      then show ?thesis using st(7) st(8)
        by (simp add: consistentNode_def createSimNode_def Let_def)
    next
      case (Some r')
      then have rr: "r = r'" and u: "fst sc1 ! r' = updateExisting dm im node (fst sc ! r')"
        using st(5) [of r'] st(6) [of r'] by simp_all
      have "nodeId (fst sc ! r') = nodeId node"
        using Some Cons.prems(2) by (simp add: knownRefs_def)
      then show ?thesis using u rr by (simp add: consistentNode_def updateExisting_def)
    qed
    from mergeNodes_keeps_consistent [OF m2 st(9) st(4) this] show ?thesis using 0 rs by simp
  next
    case (Suc i')
    then have i': "i' < length rest" using Cons.prems(3) by simp
    from Cons.IH [OF m2 st(9) i'] show ?thesis using Suc rs by simp
  qed
qed

lemma mergeNodes_payload:
  assumes "mergeNodes ex prevIds dm im now dims rnd nodes sc = (rs, sc')"
    and "knownRefs ex (fst sc)" and "i < length nodes" and "distinct (map nodeId nodes)"
  shows "label (fst sc' ! (rs ! i)) = label (nodes ! i)
    \<and> nodeType (fst sc' ! (rs ! i)) = nodeType (nodes ! i)
    \<and> reason (fst sc' ! (rs ! i)) = reason (nodes ! i)"
  using assms
proof (induction nodes arbitrary: sc rs i)
  case Nil
  then show ?case by simp
next
  case (Cons node rest)
  from Cons.prems(1) obtain r sc1 rs1 where
    m1: "mergeNode ex prevIds dm im now dims rnd node sc = (r, sc1)" and
    m2: "mergeNodes ex prevIds dm im now dims rnd rest sc1 = (rs1, sc')" and
    rs: "rs = r # rs1"
    by (rule mergeNodes_ConsE)
  note st = mergeNode_step [OF m1 Cons.prems(2)]
  note bs = mergeNodes_basic [OF m2 st(9)]
  show ?case
  proof (cases i)
    case 0
    have f1: "label (fst sc1 ! r) = label node \<and> nodeType (fst sc1 ! r) = nodeType node
        \<and> reason (fst sc1 ! r) = reason node"
    proof (cases "ex (nodeId node)")
      case None
      then show ?thesis using st(7) st(8) by (simp add: createSimNode_def Let_def)
    next
      case (Some r')
      then show ?thesis using st(5) [of r'] st(6) [of r'] by (simp add: updateExisting_def)
    qed
    have "\<forall>n \<in> set rest. ex (nodeId n) \<noteq> Some r"
    proof
      fix n assume n: "n \<in> set rest"
      show "ex (nodeId n) \<noteq> Some r"
      proof
        assume e: "ex (nodeId n) = Some r"
        then have rl: "r < length (fst sc)" and idn: "nodeId (fst sc ! r) = nodeId n"
          using Cons.prems(2) by (auto simp: knownRefs_def)
        show False
        proof (cases "ex (nodeId node)")
          case None
          then show False using st(7) rl by simp
        next
          case (Some r')
          then have "r = r'" using st(5) [of r'] by simp
          then have "nodeId (fst sc ! r) = nodeId node"
            using Some Cons.prems(2) by (simp add: knownRefs_def)
          then have "nodeId node = nodeId n" using idn by simp
          moreover have "nodeId n \<in> nodeId ` set rest" using n by simp
          ultimately show False using Cons.prems(4) by simp
        qed
      qed
    qed
    then have "fst sc' ! r = fst sc1 ! r" using bs st(4) by simp
    then show ?thesis using 0 rs f1 by simp
  next
    case (Suc i')
    then have i': "i' < length rest" using Cons.prems(3) by simp
    have d: "distinct (map nodeId rest)" using Cons.prems(4) by simp
    from Cons.IH [OF m2 st(9) i' d] show ?thesis using Suc rs by simp
  qed
qed


lemma nodesById_SomeD:
  "nodesById st refs k = Some r \<Longrightarrow> r \<in> set refs \<and> nodeId (st ! r) = k"
  by (auto simp: nodesById_def dest!: map_of_SomeD)

lemma nodesById_dom: "dom (nodesById st refs) = (\<lambda>r. nodeId (st ! r)) ` set refs"
  by (simp add: nodesById_def dom_map_of_conv_image_fst image_image)

lemma wfEngine_knownRefs:
  "wfEngine e \<Longrightarrow> knownRefs (nodesById (store e) (simNodes e)) (store e)"
  by (auto simp: wfEngine_def knownRefs_def dest: nodesById_SomeD)

lemma wfEngine_existing_iff:
  "wfEngine e \<Longrightarrow> (nodesById (store e) (simNodes e) k \<noteq> None) = (k \<in> prevNodeIds e)"
  using nodesById_dom [of "store e" "simNodes e"] by (auto simp: wfEngine_def domIff)

lemma updateSimulation_unfold:
  obtains rs st' c where
    "mergeNodes (nodesById (store e) (simNodes e)) (prevNodeIds e)
       (fst (calculateDepthsAndIslands nodes edges)) (snd (calculateDepthsAndIslands nodes edges))
       now dims rnd nodes (store e, 0) = (rs, st', c)"
    "updateSimulation nodes edges now dims rnd e
     = e\<lparr>store := st', simNodes := rs, simLinks := makeSimLinks (nodesById st' rs) edges,
          prevNodeIds := set (map nodeId nodes)\<rparr>"
proof -
  obtain rs st' c where m:
    "mergeNodes (nodesById (store e) (simNodes e)) (prevNodeIds e)
       (fst (calculateDepthsAndIslands nodes edges)) (snd (calculateDepthsAndIslands nodes edges))
       now dims rnd nodes (store e, 0) = (rs, st', c)"
    by (metis prod_cases3)
  have "updateSimulation nodes edges now dims rnd e
     = e\<lparr>store := st', simNodes := rs, simLinks := makeSimLinks (nodesById st' rs) edges,
          prevNodeIds := set (map nodeId nodes)\<rparr>"
    by (simp add: updateSimulation_def Let_def split_beta m)
  with m show ?thesis by (rule that)
qed

lemma mergeNodes_ids:
  assumes "mergeNodes ex prevIds dm im now dims rnd nodes sc = (rs, sc')"
    and "knownRefs ex (fst sc)"
  shows "map (\<lambda>r. nodeId (fst sc' ! r)) rs = map nodeId nodes"
    and "\<forall>r \<in> set rs. r < length (fst sc')"
proof -
  have len: "length rs = length nodes" using mergeNodes_basic [OF assms] by simp
  show "map (\<lambda>r. nodeId (fst sc' ! r)) rs = map nodeId nodes"
    using len mergeNodes_refs [OF assms] by (auto intro!: nth_equalityI)
  show "\<forall>r \<in> set rs. r < length (fst sc')"
    using len mergeNodes_refs [OF assms] by (auto simp: in_set_conv_nth)
qed

lemma wfEngine_initial: "wfEngine initialEngine"
  by (simp add: wfEngine_def initialEngine_def)

lemma wfEngine_updateSimulation:
  assumes "wfEngine e"
  shows "wfEngine (updateSimulation nodes edges now dims rnd e)"
proof -
  obtain rs st' c where
    m: "mergeNodes (nodesById (store e) (simNodes e)) (prevNodeIds e)
       (fst (calculateDepthsAndIslands nodes edges)) (snd (calculateDepthsAndIslands nodes edges))
       now dims rnd nodes (store e, 0) = (rs, st', c)" and
    u: "updateSimulation nodes edges now dims rnd e
     = e\<lparr>store := st', simNodes := rs, simLinks := makeSimLinks (nodesById st' rs) edges,
          prevNodeIds := set (map nodeId nodes)\<rparr>"
    by (rule updateSimulation_unfold)
  have k: "knownRefs (nodesById (store e) (simNodes e)) (fst (store e, 0::nat))"
    using wfEngine_knownRefs [OF assms] by simp
  note ids = mergeNodes_ids [OF m k]
  show ?thesis unfolding u wfEngine_def using ids by simp
qed

lemma updateAnimations_keeps:
  "length (updateAnimations now dt hovered selected expandingNodeId refs st) = length st
   \<and> map nodeId (updateAnimations now dt hovered selected expandingNodeId refs st) = map nodeId st"
proof (induction refs arbitrary: st)
  case Nil
  then show ?case by simp
next
  case (Cons r refs)
  have "map nodeId (st[r := animateNode now dt hovered selected expandingNodeId (st ! r)])
      = map nodeId st"
  proof (cases "r < length st")
    case True
    then have "(map nodeId st)[r := nodeId (st ! r)] = map nodeId st"
      using list_update_id [of "map nodeId st" r] by simp
    then show ?thesis by (simp add: map_update animateNode_nodeId)
  next
    case False
    then show ?thesis by (simp add: list_update_beyond)
  qed
  then show ?case using Cons.IH [of "st[r := animateNode now dt hovered selected expandingNodeId (st ! r)]"]
    by simp
qed

lemma wfEngine_updateAnimations:
  assumes "wfEngine e"
  shows "wfEngine (e\<lparr>store := updateAnimations now dt hovered selected expandingNodeId
                              (simNodes e) (store e)\<rparr>)"
proof -
  let ?st = "updateAnimations now dt hovered selected expandingNodeId (simNodes e) (store e)"
  have l: "length ?st = length (store e)" and m: "map nodeId ?st = map nodeId (store e)"
    using updateAnimations_keeps by blast+
  have "\<And>r. r < length (store e) \<Longrightarrow> nodeId (?st ! r) = nodeId (store e ! r)"
    using l m by (metis nth_map)
  then show ?thesis using assms l by (auto simp: wfEngine_def)
qed

lemma makeSimLinks_member:
  "l \<in> set (makeSimLinks nm edges) \<Longrightarrow>
   \<exists>e \<in> set edges. nm (source e) = Some (linkSource l) \<and> nm (target e) = Some (linkTarget l)
     \<and> linkLabel l = edgeLabel e"
  by (auto simp: makeSimLinks_def)

lemma makeSimLinks_projection:
  assumes "\<forall>k r. nm k = Some r \<longrightarrow> nodeId (st ! r) = k"
  shows "map (\<lambda>l. (nodeId (st ! linkSource l), nodeId (st ! linkTarget l), linkLabel l))
           (makeSimLinks nm edges)
       = map (\<lambda>e. (source e, target e, edgeLabel e))
           (filter (\<lambda>e. source e \<in> dom nm \<and> target e \<in> dom nm) edges)"
proof (induction edges)
  case Nil
  then show ?case by (simp add: makeSimLinks_def)
next
  case (Cons e edges)
  have f: "(nm (source e) \<noteq> None \<and> nm (target e) \<noteq> None)
      = (source e \<in> dom nm \<and> target e \<in> dom nm)"
    by (simp add: domIff)
  show ?case
  proof (cases "source e \<in> dom nm \<and> target e \<in> dom nm")
    case True
    then obtain a b where ab: "nm (source e) = Some a" "nm (target e) = Some b" by auto
    then have "nodeId (st ! a) = source e" "nodeId (st ! b) = target e" using assms by auto
    then show ?thesis using Cons.IH True ab by (simp add: makeSimLinks_def)
  next
    case False
    then have "\<not> (nm (source e) \<noteq> None \<and> nm (target e) \<noteq> None)" using f by blast
    then show ?thesis using Cons.IH False by (simp add: makeSimLinks_def del: not_None_eq)
  qed
qed

lemma forgetTopology_updateExisting:
  "forgetTopology a = forgetTopology b \<Longrightarrow>
   forgetTopology (updateExisting dm1 im1 node a) = forgetTopology (updateExisting dm2 im2 node b)"
  by (cases a, cases b) (simp add: forgetTopology_def updateExisting_def)

lemma forgetTopology_createSimNode:
  "forgetTopology (createSimNode prevIds dm1 im1 now dims rnd c node)
   = forgetTopology (createSimNode prevIds dm2 im2 now dims rnd c node)"
  by (simp add: forgetTopology_def createSimNode_def Let_def)

lemma mergeNode_topology_independent:
  assumes "mergeNode ex prevIds dm1 im1 now dims rnd node sc1 = (r1, sc1')"
    and "mergeNode ex prevIds dm2 im2 now dims rnd node sc2 = (r2, sc2')"
    and "map forgetTopology (fst sc1) = map forgetTopology (fst sc2)" and "snd sc1 = snd sc2"
  shows "r1 = r2 \<and> map forgetTopology (fst sc1') = map forgetTopology (fst sc2')
    \<and> snd sc1' = snd sc2'"
proof (cases "ex (nodeId node)")
  case None
  have "length (fst sc1) = length (fst sc2)" using assms(3) by (rule map_eq_imp_length_eq)
  then show ?thesis
    using assms None forgetTopology_createSimNode [of prevIds dm1 im1 now dims rnd _ node dm2 im2]
    by (auto simp: mergeNode_fresh)
next
  case (Some r)
  have len: "length (fst sc1) = length (fst sc2)" using assms(3) by (rule map_eq_imp_length_eq)
  show ?thesis
  proof (cases "r < length (fst sc1)")
    case True
    then have "forgetTopology (fst sc1 ! r) = forgetTopology (fst sc2 ! r)"
      using assms(3) len by (metis nth_map)
    then have "forgetTopology (updateExisting dm1 im1 node (fst sc1 ! r))
        = forgetTopology (updateExisting dm2 im2 node (fst sc2 ! r))"
      by (rule forgetTopology_updateExisting)
    then show ?thesis using assms Some by (auto simp: mergeNode_existing map_update)
  next
    case False
    then have "\<And>v. (fst sc1)[r := v] = fst sc1" and "\<And>v. (fst sc2)[r := v] = fst sc2"
      using len by (simp_all add: list_update_beyond)
    then show ?thesis using assms Some by (auto simp: mergeNode_existing)
  qed
qed

lemma mergeNodes_topology_independent:
  assumes "mergeNodes ex prevIds dm1 im1 now dims rnd nodes sc1 = (rs1, sc1')"
    and "mergeNodes ex prevIds dm2 im2 now dims rnd nodes sc2 = (rs2, sc2')"
    and "map forgetTopology (fst sc1) = map forgetTopology (fst sc2)" and "snd sc1 = snd sc2"
  shows "rs1 = rs2 \<and> map forgetTopology (fst sc1') = map forgetTopology (fst sc2')"
  using assms
proof (induction nodes arbitrary: sc1 sc2 rs1 rs2)
  case Nil
  then show ?case by auto
next
  case (Cons node rest)
  from Cons.prems(1) obtain r1 t1 q1 where
    a1: "mergeNode ex prevIds dm1 im1 now dims rnd node sc1 = (r1, t1)" and
    a2: "mergeNodes ex prevIds dm1 im1 now dims rnd rest t1 = (q1, sc1')" and
    a3: "rs1 = r1 # q1"
    by (rule mergeNodes_ConsE)
  from Cons.prems(2) obtain r2 t2 q2 where
    b1: "mergeNode ex prevIds dm2 im2 now dims rnd node sc2 = (r2, t2)" and
    b2: "mergeNodes ex prevIds dm2 im2 now dims rnd rest t2 = (q2, sc2')" and
    b3: "rs2 = r2 # q2"
    by (rule mergeNodes_ConsE)
  note s = mergeNode_topology_independent [OF a1 b1 Cons.prems(3,4)]
  have s1: "map forgetTopology (fst t1) = map forgetTopology (fst t2)" using s by simp
  have s2: "snd t1 = snd t2" using s by simp
  from Cons.IH [OF a2 b2 s1 s2] s a3 b3 show ?case by simp
qed

lemma upd_common:
  assumes "wfEngine e" and "i < length nodes"
  obtains rs st' c where
    "updateSimulation nodes edges now dims rnd e
     = e\<lparr>store := st', simNodes := rs, simLinks := makeSimLinks (nodesById st' rs) edges,
          prevNodeIds := set (map nodeId nodes)\<rparr>"
    "mergeNodes (nodesById (store e) (simNodes e)) (prevNodeIds e)
       (fst (calculateDepthsAndIslands nodes edges)) (snd (calculateDepthsAndIslands nodes edges))
       now dims rnd nodes (store e, 0) = (rs, st', c)"
    "knownRefs (nodesById (store e) (simNodes e)) (fst (store e, 0::nat))"
proof -
  obtain rs st' c where
    m: "mergeNodes (nodesById (store e) (simNodes e)) (prevNodeIds e)
       (fst (calculateDepthsAndIslands nodes edges)) (snd (calculateDepthsAndIslands nodes edges))
       now dims rnd nodes (store e, 0) = (rs, st', c)" and
    u: "updateSimulation nodes edges now dims rnd e
     = e\<lparr>store := st', simNodes := rs, simLinks := makeSimLinks (nodesById st' rs) edges,
          prevNodeIds := set (map nodeId nodes)\<rparr>"
    by (rule updateSimulation_unfold)
  have k: "knownRefs (nodesById (store e) (simNodes e)) (fst (store e, 0::nat))"
    using wfEngine_knownRefs [OF assms(1)] by simp
  from u m k show ?thesis by (rule that)
qed

lemmas eval_simps = updateSimulation_def calculateDepthsAndIslands_def rootNodesOf_def
  childrenOf_def nodesById_def mergeNode_def createSimNode_def updateExisting_def getOrZero_def
  makeSimLinks_def initialEngine_def zoomIdentity_def Let_def rootA_def genB_def exampleDims_def
  exampleRnd_def

lemma engineAB_eval:
  "simNodes engineAB = [0, 1]"
  "prevNodeIds engineAB = {''A'', ''B''}"
  "transform engineAB = zoomIdentity"
  "store engineAB =
    [\<lparr>nodeId = ''A'', label = ''Alpha'', nodeType = Root, reason = None, depth = 0,
      islandIndex = 0, nodeX = Some 375, nodeY = Some 275, nodeVx = None, nodeVy = None,
      entranceProgress = 1, entranceStartTime = 0, scale = 1, glowIntensity = 0.4,
      pulsePhase = 0\<rparr>,
     \<lparr>nodeId = ''B'', label = ''Beta'', nodeType = Generated, reason = Some ''child'', depth = 1,
      islandIndex = 0, nodeX = Some 420, nodeY = Some 320, nodeVx = None, nodeVy = None,
      entranceProgress = 1, entranceStartTime = 0, scale = 1, glowIntensity = 0.4,
      pulsePhase = 9 / 10 * pi * 2\<rparr>]"
  "simLinks engineAB = [\<lparr>linkSource = 0, linkTarget = 1, linkLabel = None\<rparr>]"
  by (simp_all add: engineAB_def eval_simps)

lemma wfEngine_engineAB: "wfEngine engineAB"
  unfolding engineAB_def by (rule wfEngine_updateSimulation [OF wfEngine_initial])

lemma animateNode_entrance_done:
  "entranceProgress node = 1 \<Longrightarrow>
   entranceProgress (animateNode now dt hovered selected expandingNodeId node) = 1"
  by (simp add: animateNode_def Let_def)

lemma getColor_root_of_first_island: "getColorByDepthAndIsland 0 0 = Hsl 0 85 55"
  by (simp add: getColorByDepthAndIsland_def getColorByDepth_def)

lemma scanNodes_only_hit:
  assumes "r \<in> set refs" and "hitDistance (st ! r) gx gy < HIT_RADIUS"
    and "\<forall>j \<in> set refs. j \<noteq> r \<longrightarrow> \<not> hitDistance (st ! j) gx gy < HIT_RADIUS"
  shows "scanNodes st gx gy refs = Some r"
  using assms by (induction refs) auto

text \<open>
  Depth is computed from the whole edge list: two edges through the absent id \<open>Z\<close>
  make no link, yet they put \<open>B\<close> at depth 2, where no edges leave it at 0.
\<close>

lemma absent_id_relays_depth:
  "''Z'' \<notin> nodeId ` set [rootA, genB]
   \<and> simLinks (updateSimulation [rootA, genB]
        [\<lparr>source = ''A'', target = ''Z'', edgeLabel = None\<rparr>,
         \<lparr>source = ''Z'', target = ''B'', edgeLabel = None\<rparr>]
        1000 exampleDims exampleRnd initialEngine) = []
   \<and> map depth (store (updateSimulation [rootA, genB]
        [\<lparr>source = ''A'', target = ''Z'', edgeLabel = None\<rparr>,
         \<lparr>source = ''Z'', target = ''B'', edgeLabel = None\<rparr>]
        1000 exampleDims exampleRnd initialEngine)) = [0, 2]
   \<and> map depth (store (updateSimulation [rootA, genB] []
        1000 exampleDims exampleRnd initialEngine)) = [0, 0]"
  by (simp add: eval_simps)

section \<open>Claims about topology analysis\<close>

text \<open>
  Claim C3, as amended. Split the root-type nodes, in input order, into \<open>earlier\<close> and
  \<open>later\<close>. An id that holds a depth after the traversals of the earlier roots keeps
  its depth and island index through the traversals of the later roots, unless it is the
  id of one of the later roots. The id of a later root always ends at depth 0 with the
  island index of a later root of that id: the seeding \<open>set\<close> calls are not guarded.
\<close>

theorem C3_first_claim_wins_except_later_roots:
  assumes "rootNodesOf nodes = earlier @ later"
    and "forEachRoot edges earlier 0 (Map.empty, Map.empty) = (dm1, im1)"
    and "calculateDepthsAndIslands nodes edges = (dm, im)"
  shows "(dm1 x \<noteq> None \<and> x \<notin> nodeId ` set later \<longrightarrow> dm x = dm1 x \<and> im x = im1 x)
       \<and> (x \<in> nodeId ` set later \<longrightarrow>
            dm x = Some 0 \<and>
            (\<exists>j. length earlier \<le> j \<and> j < length (rootNodesOf nodes)
                 \<and> nodeId (rootNodesOf nodes ! j) = x \<and> im x = Some j))"
proof -
  have f: "forEachRoot edges later (length earlier) (dm1, im1) = (dm, im)"
    using calculate_split [OF assms(1), of edges] assms(2,3) by simp
  have a: "dm1 x \<noteq> None \<and> x \<notin> nodeId ` set later \<longrightarrow> dm x = dm1 x \<and> im x = im1 x"
    using forEachRoot_keeps [OF f] by blast
  have b: "x \<in> nodeId ` set later \<longrightarrow> dm x = Some 0"
    using forEachRoot_root_depth [OF f] by blast
  have c: "x \<in> nodeId ` set later \<longrightarrow>
      (\<exists>j. length earlier \<le> j \<and> j < length (rootNodesOf nodes)
           \<and> nodeId (rootNodesOf nodes ! j) = x \<and> im x = Some j)"
  proof
    assume "x \<in> nodeId ` set later"
    from forEachRoot_root_island [OF f this] obtain j where
      j: "j < length later" "nodeId (later ! j) = x" "im x = Some (length earlier + j)" by blast
    have "length earlier \<le> length earlier + j \<and> length earlier + j < length (rootNodesOf nodes)
        \<and> nodeId (rootNodesOf nodes ! (length earlier + j)) = x \<and> im x = Some (length earlier + j)"
      using j assms(1) by (simp add: nth_append)
    then show "\<exists>j. length earlier \<le> j \<and> j < length (rootNodesOf nodes)
           \<and> nodeId (rootNodesOf nodes ! j) = x \<and> im x = Some j" by blast
  qed
  from a b c show ?thesis by blast
qed

text \<open>
  Claim C3 as stated fails: with roots \<open>A\<close>, \<open>B\<close> and the edge \<open>A \<rightarrow> B\<close>, the
  traversal of \<open>A\<close> gives \<open>B\<close> depth 1 and island 0, and the processing of \<open>B\<close>
  then overwrites both with depth 0 and island 1.
\<close>

theorem C3_later_root_overwritten_counterexample:
  "fst (forEachRoot [\<lparr>source = ''A'', target = ''B'', edgeLabel = None\<rparr>]
          [\<lparr>nodeId = ''A'', label = ''a'', nodeType = Root, reason = None\<rparr>] 0
          (Map.empty, Map.empty)) ''B'' = Some 1
   \<and> snd (forEachRoot [\<lparr>source = ''A'', target = ''B'', edgeLabel = None\<rparr>]
          [\<lparr>nodeId = ''A'', label = ''a'', nodeType = Root, reason = None\<rparr>] 0
          (Map.empty, Map.empty)) ''B'' = Some 0
   \<and> fst (calculateDepthsAndIslands
          [\<lparr>nodeId = ''A'', label = ''a'', nodeType = Root, reason = None\<rparr>,
           \<lparr>nodeId = ''B'', label = ''b'', nodeType = Root, reason = None\<rparr>]
          [\<lparr>source = ''A'', target = ''B'', edgeLabel = None\<rparr>]) ''B'' = Some 0
   \<and> snd (calculateDepthsAndIslands
          [\<lparr>nodeId = ''A'', label = ''a'', nodeType = Root, reason = None\<rparr>,
           \<lparr>nodeId = ''B'', label = ''b'', nodeType = Root, reason = None\<rparr>]
          [\<lparr>source = ''A'', target = ''B'', edgeLabel = None\<rparr>]) ''B'' = Some 1"
  by (simp add: calculateDepthsAndIslands_def rootNodesOf_def childrenOf_def)

text \<open>
  Claim C3, an instance: root \<open>A\<close> claims \<open>C\<close> and the second root \<open>B\<close>. The
  processing of \<open>B\<close>, which also has an edge to \<open>C\<close>, leaves \<open>C\<close> at depth 1 in
  island 0 and resets \<open>B\<close> itself to depth 0 in island 1.
\<close>

theorem C3_witness:
  "fst (calculateDepthsAndIslands [rootA, genB\<lparr>nodeType := Root\<rparr>, genB\<lparr>nodeId := ''C''\<rparr>]
          [\<lparr>source = ''A'', target = ''C'', edgeLabel = None\<rparr>,
           \<lparr>source = ''A'', target = ''B'', edgeLabel = None\<rparr>,
           \<lparr>source = ''B'', target = ''C'', edgeLabel = None\<rparr>]) ''C'' = Some 1
   \<and> snd (calculateDepthsAndIslands [rootA, genB\<lparr>nodeType := Root\<rparr>, genB\<lparr>nodeId := ''C''\<rparr>]
          [\<lparr>source = ''A'', target = ''C'', edgeLabel = None\<rparr>,
           \<lparr>source = ''A'', target = ''B'', edgeLabel = None\<rparr>,
           \<lparr>source = ''B'', target = ''C'', edgeLabel = None\<rparr>]) ''C'' = Some 0
   \<and> fst (calculateDepthsAndIslands [rootA, genB\<lparr>nodeType := Root\<rparr>, genB\<lparr>nodeId := ''C''\<rparr>]
          [\<lparr>source = ''A'', target = ''C'', edgeLabel = None\<rparr>,
           \<lparr>source = ''A'', target = ''B'', edgeLabel = None\<rparr>,
           \<lparr>source = ''B'', target = ''C'', edgeLabel = None\<rparr>]) ''B'' = Some 0
   \<and> snd (calculateDepthsAndIslands [rootA, genB\<lparr>nodeType := Root\<rparr>, genB\<lparr>nodeId := ''C''\<rparr>]
          [\<lparr>source = ''A'', target = ''C'', edgeLabel = None\<rparr>,
           \<lparr>source = ''A'', target = ''B'', edgeLabel = None\<rparr>,
           \<lparr>source = ''B'', target = ''C'', edgeLabel = None\<rparr>]) ''B'' = Some 1"
proof -
  let ?B = "genB\<lparr>nodeType := Root\<rparr>"
  let ?nodes = "[rootA, ?B, genB\<lparr>nodeId := ''C''\<rparr>]"
  let ?edges = "[\<lparr>source = ''A'', target = ''C'', edgeLabel = None\<rparr>,
           \<lparr>source = ''A'', target = ''B'', edgeLabel = None\<rparr>,
           \<lparr>source = ''B'', target = ''C'', edgeLabel = None\<rparr>]"
  let ?first = "forEachRoot ?edges [rootA] 0 (Map.empty, Map.empty)"
  let ?all = "calculateDepthsAndIslands ?nodes ?edges"
  have r: "rootNodesOf ?nodes = [rootA] @ [?B]"
    by (simp add: rootNodesOf_def rootA_def genB_def)
  have e: "?first = (fst ?first, snd ?first)" by simp
  have c: "?all = (fst ?all, snd ?all)" by simp
  have d1: "fst ?first ''C'' = Some 1 \<and> snd ?first ''C'' = Some 0"
    by (simp add: childrenOf_def rootA_def)
  have keep: "fst ?first ''C'' \<noteq> None \<and> ''C'' \<notin> nodeId ` set [?B]"
    using d1 by (simp add: genB_def)
  have later: "''B'' \<in> nodeId ` set [?B]" by (simp add: genB_def)
  have idx: "\<And>j. length [rootA] \<le> j \<and> j < length (rootNodesOf ?nodes) \<Longrightarrow> j = 1"
    unfolding r by simp
  have cc: "fst ?all ''C'' = Some 1 \<and> snd ?all ''C'' = Some 0"
    using C3_first_claim_wins_except_later_roots [OF r e c, of "''C''"] keep d1 by simp
  have bb: "fst ?all ''B'' = Some 0 \<and> snd ?all ''B'' = Some 1"
    using C3_first_claim_wins_except_later_roots [OF r e c, of "''B''"] later idx by auto
  from cc bb show ?thesis by simp
qed

text \<open>
  Claim C9. The traversal never looks at the node list: an edge that leaves an id with a
  depth gives its target a depth and an island as well, also when the target is no id of
  the node list. The returned maps then hold a key outside the supplied nodes.
\<close>

theorem C9_bfs_assigns_ids_absent_from_nodes:
  assumes "calculateDepthsAndIslands nodes edges = (dm, im)"
    and "e \<in> set edges" and "source e \<in> dom dm" and "target e \<notin> nodeId ` set nodes"
  shows "target e \<in> dom dm \<and> target e \<in> dom im"
  using calculate_closed [OF assms(1)] assms(2,3) by (auto simp: closedIn_def)

text \<open>
  Claim C9, an instance: the node list is the single root \<open>A\<close>, the edge \<open>A \<rightarrow> Z\<close>
  puts the absent id \<open>Z\<close> into both maps.
\<close>

theorem C9_witness:
  "''Z'' \<notin> nodeId ` set [\<lparr>nodeId = ''A'', label = ''a'', nodeType = Root, reason = None\<rparr>]
   \<and> ''Z'' \<in> dom (fst (calculateDepthsAndIslands
          [\<lparr>nodeId = ''A'', label = ''a'', nodeType = Root, reason = None\<rparr>]
          [\<lparr>source = ''A'', target = ''Z'', edgeLabel = None\<rparr>]))
   \<and> ''Z'' \<in> dom (snd (calculateDepthsAndIslands
          [\<lparr>nodeId = ''A'', label = ''a'', nodeType = Root, reason = None\<rparr>]
          [\<lparr>source = ''A'', target = ''Z'', edgeLabel = None\<rparr>]))"
proof -
  let ?nodes = "[\<lparr>nodeId = ''A'', label = ''a'', nodeType = Root, reason = None\<rparr>]"
  let ?e = "\<lparr>source = ''A'', target = ''Z'', edgeLabel = None\<rparr>"
  let ?all = "calculateDepthsAndIslands ?nodes [?e]"
  have c: "?all = (fst ?all, snd ?all)" by simp
  have s: "source ?e \<in> dom (fst ?all)"
    by (simp add: calculateDepthsAndIslands_def rootNodesOf_def childrenOf_def domIff)
  have t: "target ?e \<notin> nodeId ` set ?nodes" by simp
  from C9_bfs_assigns_ids_absent_from_nodes [OF c _ s t] t show ?thesis by simp
qed

text \<open>
  Claim C1 at the input nodes \<open>A\<close> (root), \<open>B\<close> and the single edge \<open>B \<rightarrow> A\<close>: the
  traversal only follows an edge from its source to its target, so \<open>B\<close>, which the edge
  records as source, gets neither depth nor island. With the edge recorded as
  \<open>A \<rightarrow> B\<close> the same node is at depth 1 in island 0. \<open>getIslandNodes\<close>, on the same
  nodes and the edge \<open>B \<rightarrow> A\<close>, does put \<open>B\<close> into the island of \<open>A\<close>.
\<close>

theorem C1_edge_recorded_towards_root_not_followed:
  "fst (calculateDepthsAndIslands [rootA, genB]
          [\<lparr>source = ''B'', target = ''A'', edgeLabel = None\<rparr>]) ''B'' = None
   \<and> snd (calculateDepthsAndIslands [rootA, genB]
          [\<lparr>source = ''B'', target = ''A'', edgeLabel = None\<rparr>]) ''B'' = None
   \<and> fst (calculateDepthsAndIslands [rootA, genB]
          [\<lparr>source = ''A'', target = ''B'', edgeLabel = None\<rparr>]) ''B'' = Some 1
   \<and> snd (calculateDepthsAndIslands [rootA, genB]
          [\<lparr>source = ''A'', target = ''B'', edgeLabel = None\<rparr>]) ''B'' = Some 0
   \<and> getIslandNodes [rootA, genB] [\<lparr>source = ''B'', target = ''A'', edgeLabel = None\<rparr>] ''A''
       = [rootA, genB]"
  by (simp add: calculateDepthsAndIslands_def rootNodesOf_def childrenOf_def getIslandNodes_def
      pushNeighbours_def rootA_def genB_def)

section \<open>Claims about the viewport and the animation\<close>

text \<open>
  Claim C5. Numbers are real here, so the round trip is exact. For a transform whose
  scale lies in the configured extent \<open>[0.2, 5]\<close>, surface to simulation and back
  returns the point, and so does the other order. With \<open>k = 2\<close>, \<open>tx = 100\<close>,
  \<open>ty = 50\<close>, a node at simulation \<open>(10, 10)\<close> is drawn at surface \<open>(120, 70)\<close>, and
  \<open>findNodeAtPosition\<close> at \<open>(120, 70)\<close> returns that node, when no node before it in
  the list lies within the hit radius of the point.
\<close>

theorem C5_viewport_round_trip:
  assumes "1 / 5 \<le> transK t" and "transK t \<le> 5"
    and "transform e = \<lparr>transX = 100, transY = 50, transK = 2\<rparr>"
    and "simNodes e = pre @ r # post"
    and "nodeX (store e ! r) = Some 10" and "nodeY (store e ! r) = Some 10"
    and "\<forall>j \<in> set pre. HIT_RADIUS \<le> hitDistance (store e ! j) 10 10"
  shows "toScreen t (toSimulation t p) = p
       \<and> toSimulation t (toScreen t p) = p
       \<and> toScreen (transform e) (10, 10) = (120, 70)
       \<and> findNodeAtPosition e 120 70 = Some r"
proof -
  have k: "transK t \<noteq> 0" using assms(1) by auto
  have s: "toSimulation (transform e) (120, 70) = (10, 10)"
    using assms(3) by (simp add: toSimulation_def)
  have h: "hitDistance (store e ! r) 10 10 < HIT_RADIUS"
    using assms(5,6) by (simp add: hitDistance_def orZero_def HIT_RADIUS_def)
  have pre: "\<forall>j \<in> set pre. \<not> hitDistance (store e ! j) 10 10 < HIT_RADIUS"
    using assms(7) by auto
  have "findNodeAtPosition e 120 70 = Some r"
    using scanNodes_first_hit [OF pre h] s assms(4) by (simp add: findNodeAtPosition_def)
  moreover have "toScreen (transform e) (10, 10) = (120, 70)"
    using assms(3) by (simp add: toScreen_def)
  ultimately show ?thesis
    using toScreen_toSimulation [OF k] toSimulation_toScreen [OF k] by simp
qed

text \<open>
  Claim C5, an instance: the transform of the scenario, a far node first in the list and
  the node at \<open>(10, 10)\<close> second.
\<close>

theorem C5_witness:
  "toScreen \<lparr>transX = 100, transY = 50, transK = 2\<rparr>
     (toSimulation \<lparr>transX = 100, transY = 50, transK = 2\<rparr> (120, 70)) = (120, 70)
   \<and> toSimulation \<lparr>transX = 100, transY = 50, transK = 2\<rparr> (120, 70) = (10, 10)
   \<and> findNodeAtPosition
        \<lparr>store = [exampleNode ''far'' 500 500, exampleNode ''N'' 10 10],
         simNodes = [0, 1], simLinks = [], prevNodeIds = {''far'', ''N''},
         transform = \<lparr>transX = 100, transY = 50, transK = 2\<rparr>\<rparr> 120 70 = Some 1"
proof -
  let ?t = "\<lparr>transX = 100, transY = 50, transK = 2\<rparr>"
  let ?e = "\<lparr>store = [exampleNode ''far'' 500 500, exampleNode ''N'' 10 10],
         simNodes = [0, 1], simLinks = [], prevNodeIds = {''far'', ''N''},
         transform = ?t\<rparr>"
  have far: "\<forall>j \<in> set [0::nat]. HIT_RADIUS \<le> hitDistance (store ?e ! j) 10 10"
    using hit_iff [of "exampleNode ''far'' 500 500" 10 10]
    by (simp add: orZero_def exampleNode_def)
  have "toScreen ?t (toSimulation ?t (120, 70)) = (120, 70)
       \<and> toSimulation ?t (toScreen ?t (120, 70)) = (120, 70)
       \<and> toScreen (transform ?e) (10, 10) = (120, 70)
       \<and> findNodeAtPosition ?e 120 70 = Some 1"
    by (rule C5_viewport_round_trip [where pre = "[0]" and post = "[]", OF _ _ _ _ _ _ far])
       (simp_all add: exampleNode_def)
  then show ?thesis by (simp add: toSimulation_def)
qed

text \<open>
  Claim C8, as amended. Each frame moves the scale by the fixed fraction 0.2 of the
  remaining distance to its target (1.25 for the expanding node, else 1.15 when hovered,
  else 1). The step does not use the frame time: any two frames give the same scale
  whatever \<open>now\<close> and \<open>dt\<close> are, and after \<open>n\<close> frames the remaining distance is
  \<open>0.8 ^ n\<close> times the initial one, so the speed follows the number of frames.
\<close>

theorem C8_scale_fixed_fraction_per_frame:
  "scale (animateNode now dt hovered selected expandingNodeId node)
     = scale node + (targetScale hovered expandingNodeId node - scale node) * 0.2
   \<and> scale (animateNode now dt hovered selected expandingNodeId node)
     = scale (animateNode now' dt' hovered selected' expandingNodeId node)
   \<and> targetScale hovered expandingNodeId node
       - scale (renderFrames frames hovered selected expandingNodeId node)
     = (4 / 5) ^ length frames * (targetScale hovered expandingNodeId node - scale node)"
proof -
  have a: "\<And>now dt selected node. scale (animateNode now dt hovered selected expandingNodeId node)
     = scale node + (targetScale hovered expandingNodeId node - scale node) * 0.2"
    by (simp add: animateNode_scale targetScale_def)
  have t: "\<And>now dt selected node. targetScale hovered expandingNodeId
        (animateNode now dt hovered selected expandingNodeId node)
      = targetScale hovered expandingNodeId node"
    by (simp add: targetScale_def animateNode_nodeId)
  have c: "targetScale hovered expandingNodeId node
       - scale (renderFrames frames hovered selected expandingNodeId node)
     = (4 / 5) ^ length frames * (targetScale hovered expandingNodeId node - scale node)"
  proof (induction frames arbitrary: node)
    case Nil
    then show ?case by simp
  next
    case (Cons f frames)
    obtain now dt where f: "f = (now, dt)" by (cases f)
    show ?case unfolding f
      using Cons.IH [of "animateNode now dt hovered selected expandingNodeId node"]
      by (simp add: t a algebra_simps)
  qed
  show ?thesis using a [of now dt selected node] a [of now' dt' selected' node] c by simp
qed

text \<open>
  Claim C8 as stated fails: over the same 32 milliseconds a hovered node at scale 1
  reaches 1.03 with one frame of 32 ms and 1.054 with two frames of 16 ms.
\<close>

theorem C8_frame_rate_dependence_counterexample:
  "scale (renderFrames [(32, 32)] (Some ''N'') None None (exampleNode ''N'' 0 0)) = 103 / 100
   \<and> scale (renderFrames [(16, 16), (32, 16)] (Some ''N'') None None (exampleNode ''N'' 0 0))
       = 1054 / 1000"
  by (simp add: animateNode_def targetScale_def exampleNode_def Let_def)


text \<open>
  Claim C8, an instance: one frame takes a hovered node from scale 1 to 1.03, a fifth
  of the way to 1.15.
\<close>

theorem C8_witness:
  "scale (animateNode 16 16 (Some ''N'') None None (exampleNode ''N'' 0 0)) = 103 / 100
   \<and> scale (animateNode 16 16 (Some ''N'') None None (exampleNode ''N'' 0 0))
       = scale (animateNode 999 500 (Some ''N'') (Some ''N'') None (exampleNode ''N'' 0 0))"
  using C8_scale_fixed_fraction_per_frame
    [of 16 16 "Some ''N''" None None "exampleNode ''N'' 0 0" 999 500 "Some ''N''" "[]"]
  by (simp add: targetScale_def exampleNode_def)

section \<open>Claims about the update effect\<close>

text \<open>
  Claim C4. In an update of an engine whose refs are in step, a node of the new list
  whose id was in the previous id set is given the SimNode object that already carried
  this id: the same reference, at the node's position in the new list. Of that object
  only label, type, reason, depth and island index may differ afterwards; position,
  velocity, entrance progress and start time, scale, glow intensity and pulse phase are
  the ones from before, so no entrance animation starts. Depth and island index are the
  entries of the new maps (0 without entry), and label, type and reason are the node's
  when the ids of the new list are distinct.
\<close>

theorem C4_existing_node_state_preserved:
  assumes "wfEngine e" and "i < length nodes" and "nodeId (nodes ! i) \<in> prevNodeIds e"
    and "e' = updateSimulation nodes edges now dims rnd e"
  shows "\<exists>r \<in> set (simNodes e).
           nodeId (store e ! r) = nodeId (nodes ! i) \<and> simNodes e' ! i = r
         \<and> store e' ! r = (store e ! r)
               \<lparr>label := label (store e' ! r), nodeType := nodeType (store e' ! r),
                reason := reason (store e' ! r), depth := depth (store e' ! r),
                islandIndex := islandIndex (store e' ! r)\<rparr>
         \<and> nodeX (store e' ! r) = nodeX (store e ! r)
         \<and> nodeY (store e' ! r) = nodeY (store e ! r)
         \<and> nodeVx (store e' ! r) = nodeVx (store e ! r)
         \<and> nodeVy (store e' ! r) = nodeVy (store e ! r)
         \<and> entranceProgress (store e' ! r) = entranceProgress (store e ! r)
         \<and> entranceStartTime (store e' ! r) = entranceStartTime (store e ! r)
         \<and> scale (store e' ! r) = scale (store e ! r)
         \<and> glowIntensity (store e' ! r) = glowIntensity (store e ! r)
         \<and> pulsePhase (store e' ! r) = pulsePhase (store e ! r)
         \<and> depth (store e' ! r)
             = getOrZero (fst (calculateDepthsAndIslands nodes edges)) (nodeId (nodes ! i))
         \<and> islandIndex (store e' ! r)
             = getOrZero (snd (calculateDepthsAndIslands nodes edges)) (nodeId (nodes ! i))
         \<and> (distinct (map nodeId nodes) \<longrightarrow>
               label (store e' ! r) = label (nodes ! i)
             \<and> nodeType (store e' ! r) = nodeType (nodes ! i)
             \<and> reason (store e' ! r) = reason (nodes ! i))"
proof -
  obtain rs st' c where
    u: "updateSimulation nodes edges now dims rnd e
     = e\<lparr>store := st', simNodes := rs, simLinks := makeSimLinks (nodesById st' rs) edges,
          prevNodeIds := set (map nodeId nodes)\<rparr>" and
    m: "mergeNodes (nodesById (store e) (simNodes e)) (prevNodeIds e)
       (fst (calculateDepthsAndIslands nodes edges)) (snd (calculateDepthsAndIslands nodes edges))
       now dims rnd nodes (store e, 0) = (rs, st', c)" and
    k: "knownRefs (nodesById (store e) (simNodes e)) (fst (store e, 0::nat))"
    using assms(1,2) by (rule upd_common)
  have st: "store e' = st'" and sn: "simNodes e' = rs" using assms(4) u by simp_all
  obtain r where r: "nodesById (store e) (simNodes e) (nodeId (nodes ! i)) = Some r"
    using wfEngine_existing_iff [OF assms(1), of "nodeId (nodes ! i)"] assms(3) by auto
  then have rin: "r \<in> set (simNodes e)" and rid: "nodeId (store e ! r) = nodeId (nodes ! i)"
    using nodesById_SomeD by blast+
  have rl: "r < length (store e)" using rin assms(1) by (simp add: wfEngine_def)
  note refs = mergeNodes_refs [OF m k assms(2)]
  have ri: "rs ! i = r" using refs r by simp
  have sb: "sameBody (store e ! r) (st' ! r)"
    using mergeNodes_basic [OF m k] rl by simp
  note f = sameBody_fields [OF sb]
  have cons: "consistentNode (fst (calculateDepthsAndIslands nodes edges))
      (snd (calculateDepthsAndIslands nodes edges)) (st' ! r)"
    using mergeNodes_consistent [OF m k assms(2)] ri by simp
  have idr: "nodeId (st' ! r) = nodeId (nodes ! i)" using refs ri by simp
  have pay: "distinct (map nodeId nodes) \<longrightarrow>
               label (st' ! r) = label (nodes ! i)
             \<and> nodeType (st' ! r) = nodeType (nodes ! i)
             \<and> reason (st' ! r) = reason (nodes ! i)"
    using mergeNodes_payload [OF m k assms(2)] ri by auto
  have eq: "st' ! r = (store e ! r)
               \<lparr>label := label (st' ! r), nodeType := nodeType (st' ! r),
                reason := reason (st' ! r), depth := depth (st' ! r),
                islandIndex := islandIndex (st' ! r)\<rparr>"
    using sb by (simp add: sameBody_def)
  have "nodeId (store e ! r) = nodeId (nodes ! i) \<and> simNodes e' ! i = r
         \<and> store e' ! r = (store e ! r)
               \<lparr>label := label (store e' ! r), nodeType := nodeType (store e' ! r),
                reason := reason (store e' ! r), depth := depth (store e' ! r),
                islandIndex := islandIndex (store e' ! r)\<rparr>
         \<and> nodeX (store e' ! r) = nodeX (store e ! r)
         \<and> nodeY (store e' ! r) = nodeY (store e ! r)
         \<and> nodeVx (store e' ! r) = nodeVx (store e ! r)
         \<and> nodeVy (store e' ! r) = nodeVy (store e ! r)
         \<and> entranceProgress (store e' ! r) = entranceProgress (store e ! r)
         \<and> entranceStartTime (store e' ! r) = entranceStartTime (store e ! r)
         \<and> scale (store e' ! r) = scale (store e ! r)
         \<and> glowIntensity (store e' ! r) = glowIntensity (store e ! r)
         \<and> pulsePhase (store e' ! r) = pulsePhase (store e ! r)
         \<and> depth (store e' ! r)
             = getOrZero (fst (calculateDepthsAndIslands nodes edges)) (nodeId (nodes ! i))
         \<and> islandIndex (store e' ! r)
             = getOrZero (snd (calculateDepthsAndIslands nodes edges)) (nodeId (nodes ! i))
         \<and> (distinct (map nodeId nodes) \<longrightarrow>
               label (store e' ! r) = label (nodes ! i)
             \<and> nodeType (store e' ! r) = nodeType (nodes ! i)
             \<and> reason (store e' ! r) = reason (nodes ! i))"
    unfolding st sn
    using rid ri eq f cons idr pay by (simp add: consistentNode_def)
  with rin show ?thesis by blast
qed


text \<open>
  Claim C4, an instance: after a first update with \<open>A\<close> and \<open>B\<close>, a second one
  supplies \<open>B\<close> with a new label in front of \<open>A\<close> and without edges. \<open>B\<close> keeps its
  object, its position and its finished entrance; its label is the new one and its depth
  falls to 0.
\<close>

theorem C4_witness:
  "nodeId ([genB\<lparr>label := ''Beta two''\<rparr>, rootA] ! 0) \<in> prevNodeIds engineAB
   \<and> simNodes (updateSimulation [genB\<lparr>label := ''Beta two''\<rparr>, rootA] [] 2000 exampleDims
        exampleRnd engineAB) ! 0 = 1
   \<and> nodeX (store (updateSimulation [genB\<lparr>label := ''Beta two''\<rparr>, rootA] [] 2000 exampleDims
        exampleRnd engineAB) ! 1) = Some 420
   \<and> entranceProgress (store (updateSimulation [genB\<lparr>label := ''Beta two''\<rparr>, rootA] [] 2000
        exampleDims exampleRnd engineAB) ! 1) = 1
   \<and> label (store (updateSimulation [genB\<lparr>label := ''Beta two''\<rparr>, rootA] [] 2000
        exampleDims exampleRnd engineAB) ! 1) = ''Beta two''
   \<and> depth (store (updateSimulation [genB\<lparr>label := ''Beta two''\<rparr>, rootA] [] 2000
        exampleDims exampleRnd engineAB) ! 1) = 0"
proof -
  let ?nodes = "[genB\<lparr>label := ''Beta two''\<rparr>, rootA]"
  let ?e' = "updateSimulation ?nodes [] 2000 exampleDims exampleRnd engineAB"
  have i: "0 < length ?nodes" by simp
  have p: "nodeId (?nodes ! 0) \<in> prevNodeIds engineAB"
    by (simp add: engineAB_eval genB_def)
  have d: "distinct (map nodeId ?nodes)" by (simp add: genB_def rootA_def)
  have c: "getOrZero (fst (calculateDepthsAndIslands ?nodes [])) (nodeId (?nodes ! 0)) = 0"
    by (simp add: eval_simps)
  from C4_existing_node_state_preserved [OF wfEngine_engineAB i p refl, of "[]" 2000 exampleDims exampleRnd]
  obtain r where r: "r \<in> set (simNodes engineAB)"
    "nodeId (store engineAB ! r) = nodeId (?nodes ! 0)"
    "simNodes ?e' ! 0 = r"
    "nodeX (store ?e' ! r) = nodeX (store engineAB ! r)"
    "entranceProgress (store ?e' ! r) = entranceProgress (store engineAB ! r)"
    "depth (store ?e' ! r)
       = getOrZero (fst (calculateDepthsAndIslands ?nodes [])) (nodeId (?nodes ! 0))"
    "distinct (map nodeId ?nodes) \<longrightarrow> label (store ?e' ! r) = label (?nodes ! 0)"
    by blast
  have v: "nodeX (store engineAB ! 1) = Some 420" "entranceProgress (store engineAB ! 1) = 1"
    by (simp_all add: engineAB_eval)
  have "r = 1" using r(1,2) by (auto simp: engineAB_eval genB_def)
  then show ?thesis using p r d c v by (simp add: genB_def)
qed

text \<open>
  Claim C10. When the previous id set is empty, every node of the new list starts with
  entrance progress 1 and start time 0, and the animation step leaves the progress at 1.
  When the previous set is not empty, a node whose id is not in it starts with progress 0
  and the start time \<open>now\<close>. The previous set is empty in the initial engine and after
  an update with the empty node list (a full clear); both engines have their refs in step.
\<close>

theorem C10_entrance_animation_needs_nonempty_previous_ids:
  assumes "wfEngine e" and "i < length nodes"
    and "e' = updateSimulation nodes edges now dims rnd e"
  shows "(prevNodeIds e = {} \<longrightarrow>
            entranceProgress (store e' ! (simNodes e' ! i)) = 1
          \<and> entranceStartTime (store e' ! (simNodes e' ! i)) = 0
          \<and> entranceProgress
               (animateNode t dt hovered selected expandingNodeId (store e' ! (simNodes e' ! i))) = 1)
       \<and> (prevNodeIds e \<noteq> {} \<and> nodeId (nodes ! i) \<notin> prevNodeIds e \<longrightarrow>
            entranceProgress (store e' ! (simNodes e' ! i)) = 0
          \<and> entranceStartTime (store e' ! (simNodes e' ! i)) = now)
       \<and> wfEngine initialEngine \<and> prevNodeIds initialEngine = {}
       \<and> wfEngine (updateSimulation [] edges now dims rnd e)
       \<and> prevNodeIds (updateSimulation [] edges now dims rnd e) = {}"
proof -
  obtain rs st' c where
    u: "updateSimulation nodes edges now dims rnd e
     = e\<lparr>store := st', simNodes := rs, simLinks := makeSimLinks (nodesById st' rs) edges,
          prevNodeIds := set (map nodeId nodes)\<rparr>" and
    m: "mergeNodes (nodesById (store e) (simNodes e)) (prevNodeIds e)
       (fst (calculateDepthsAndIslands nodes edges)) (snd (calculateDepthsAndIslands nodes edges))
       now dims rnd nodes (store e, 0) = (rs, st', c)" and
    k: "knownRefs (nodesById (store e) (simNodes e)) (fst (store e, 0::nat))"
    using assms(1,2) by (rule upd_common)
  have st: "store e' = st'" and sn: "simNodes e' = rs" using assms(3) u by simp_all
  note refs = mergeNodes_refs [OF m k assms(2)]
  have fresh: "nodeId (nodes ! i) \<notin> prevNodeIds e \<Longrightarrow>
      \<exists>c. st' ! (rs ! i) = createSimNode (prevNodeIds e)
        (fst (calculateDepthsAndIslands nodes edges)) (snd (calculateDepthsAndIslands nodes edges))
        now dims rnd c (nodes ! i)"
    using refs wfEngine_existing_iff [OF assms(1), of "nodeId (nodes ! i)"] by auto
  have a: "prevNodeIds e = {} \<longrightarrow>
            entranceProgress (st' ! (rs ! i)) = 1 \<and> entranceStartTime (st' ! (rs ! i)) = 0"
  proof
    assume e: "prevNodeIds e = {}"
    then obtain c where "st' ! (rs ! i) = createSimNode (prevNodeIds e)
        (fst (calculateDepthsAndIslands nodes edges)) (snd (calculateDepthsAndIslands nodes edges))
        now dims rnd c (nodes ! i)"
      using fresh by auto
    then show "entranceProgress (st' ! (rs ! i)) = 1 \<and> entranceStartTime (st' ! (rs ! i)) = 0"
      using e by (simp add: createSimNode_def)
  qed
  have b: "prevNodeIds e \<noteq> {} \<and> nodeId (nodes ! i) \<notin> prevNodeIds e \<longrightarrow>
            entranceProgress (st' ! (rs ! i)) = 0 \<and> entranceStartTime (st' ! (rs ! i)) = now"
  proof
    assume e: "prevNodeIds e \<noteq> {} \<and> nodeId (nodes ! i) \<notin> prevNodeIds e"
    then obtain c where "st' ! (rs ! i) = createSimNode (prevNodeIds e)
        (fst (calculateDepthsAndIslands nodes edges)) (snd (calculateDepthsAndIslands nodes edges))
        now dims rnd c (nodes ! i)"
      using fresh by auto
    then show "entranceProgress (st' ! (rs ! i)) = 0 \<and> entranceStartTime (st' ! (rs ! i)) = now"
      using e by (simp add: createSimNode_def)
  qed
  have c: "prevNodeIds (updateSimulation [] edges now dims rnd e) = {}"
    by (simp add: updateSimulation_def Let_def split_beta)
  have d: "prevNodeIds initialEngine = {}" by (simp add: initialEngine_def)
  show ?thesis
    unfolding st sn
    using a b c d wfEngine_initial wfEngine_updateSimulation [OF assms(1)]
      animateNode_entrance_done
    by simp
qed

text \<open>
  Claim C10, instances: the first update of the initial engine gives \<open>B\<close> progress 1;
  a later update that adds \<open>C\<close> gives \<open>C\<close> progress 0 and the start time 2000; after a
  clear, \<open>B\<close> supplied again starts with progress 1.
\<close>

theorem C10_witness:
  "prevNodeIds initialEngine = {}
   \<and> entranceProgress (store engineAB ! (simNodes engineAB ! 1)) = 1
   \<and> prevNodeIds engineAB \<noteq> {} \<and> ''C'' \<notin> prevNodeIds engineAB
   \<and> entranceProgress
       (store (updateSimulation [rootA, genB, genB\<lparr>nodeId := ''C''\<rparr>] [] 2000 exampleDims
          exampleRnd engineAB)
        ! (simNodes (updateSimulation [rootA, genB, genB\<lparr>nodeId := ''C''\<rparr>] [] 2000
             exampleDims exampleRnd engineAB) ! 2)) = 0
   \<and> entranceStartTime
       (store (updateSimulation [rootA, genB, genB\<lparr>nodeId := ''C''\<rparr>] [] 2000 exampleDims
          exampleRnd engineAB)
        ! (simNodes (updateSimulation [rootA, genB, genB\<lparr>nodeId := ''C''\<rparr>] [] 2000
             exampleDims exampleRnd engineAB) ! 2)) = 2000
   \<and> entranceProgress
       (store (updateSimulation [genB] [] 3000 exampleDims exampleRnd
          (updateSimulation [] [] 2000 exampleDims exampleRnd engineAB))
        ! (simNodes (updateSimulation [genB] [] 3000 exampleDims exampleRnd
          (updateSimulation [] [] 2000 exampleDims exampleRnd engineAB)) ! 0)) = 1"
proof -
  let ?nodes = "[rootA, genB, genB\<lparr>nodeId := ''C''\<rparr>]"
  let ?cleared = "updateSimulation [] [] 2000 exampleDims exampleRnd engineAB"
  have p: "prevNodeIds engineAB \<noteq> {} \<and> nodeId (?nodes ! 2) \<notin> prevNodeIds engineAB"
    by (simp add: engineAB_eval)
  have first: "entranceProgress (store engineAB ! (simNodes engineAB ! 1)) = 1"
    using C10_entrance_animation_needs_nonempty_previous_ids
      [OF wfEngine_initial, of 1 "[rootA, genB]" engineAB
        "[\<lparr>source = ''A'', target = ''B'', edgeLabel = None\<rparr>]" 1000 exampleDims exampleRnd]
    by (simp add: engineAB_def initialEngine_def)
  have second: "entranceProgress
       (store (updateSimulation ?nodes [] 2000 exampleDims exampleRnd engineAB)
        ! (simNodes (updateSimulation ?nodes [] 2000 exampleDims exampleRnd engineAB) ! 2)) = 0
     \<and> entranceStartTime
       (store (updateSimulation ?nodes [] 2000 exampleDims exampleRnd engineAB)
        ! (simNodes (updateSimulation ?nodes [] 2000 exampleDims exampleRnd engineAB) ! 2)) = 2000"
    using C10_entrance_animation_needs_nonempty_previous_ids
      [OF wfEngine_engineAB, of 2 ?nodes _ "[]" 2000 exampleDims exampleRnd, OF _ refl] p
    by simp
  have wc: "wfEngine ?cleared \<and> prevNodeIds ?cleared = {}"
    using C10_entrance_animation_needs_nonempty_previous_ids
      [OF wfEngine_engineAB, of 0 "[rootA]" _ "[]" 2000 exampleDims exampleRnd, OF _ refl]
    by simp
  have third: "entranceProgress
       (store (updateSimulation [genB] [] 3000 exampleDims exampleRnd ?cleared)
        ! (simNodes (updateSimulation [genB] [] 3000 exampleDims exampleRnd ?cleared) ! 0)) = 1"
    using C10_entrance_animation_needs_nonempty_previous_ids
      [of ?cleared 0 "[genB]" _ "[]" 3000 exampleDims exampleRnd, OF _ _ refl] wc
    by simp
  show ?thesis using first second third p by (simp add: initialEngine_def)
qed

text \<open>
  Claim C7. After an update of an engine whose refs are in step, both endpoints of every
  SimLink are references of the new SimNode list, and the links are, in order, exactly
  the edges whose source and target are both ids of the node list: every other edge is
  dropped. The ids of the SimNodes are the ids of the node list. The edge list has no
  part in which SimNodes there are: with any other edge list the update returns the same
  references and the same objects up to depth and island index.
\<close>

theorem C7_links_need_both_endpoints:
  assumes "wfEngine e"
    and "e' = updateSimulation nodes edges now dims rnd e"
    and "e'' = updateSimulation nodes otherEdges now dims rnd e"
  shows "(\<forall>l \<in> set (simLinks e').
            linkSource l \<in> set (simNodes e') \<and> linkTarget l \<in> set (simNodes e'))
       \<and> map (\<lambda>l. (nodeId (store e' ! linkSource l), nodeId (store e' ! linkTarget l),
                     linkLabel l)) (simLinks e')
         = map (\<lambda>e. (source e, target e, edgeLabel e))
             (filter (\<lambda>e. source e \<in> nodeId ` set nodes \<and> target e \<in> nodeId ` set nodes) edges)
       \<and> map (\<lambda>r. nodeId (store e' ! r)) (simNodes e') = map nodeId nodes
       \<and> simNodes e'' = simNodes e'
       \<and> map forgetTopology (store e'') = map forgetTopology (store e')"
proof -
  obtain rs st' c where
    m: "mergeNodes (nodesById (store e) (simNodes e)) (prevNodeIds e)
       (fst (calculateDepthsAndIslands nodes edges)) (snd (calculateDepthsAndIslands nodes edges))
       now dims rnd nodes (store e, 0) = (rs, st', c)" and
    u: "updateSimulation nodes edges now dims rnd e
     = e\<lparr>store := st', simNodes := rs, simLinks := makeSimLinks (nodesById st' rs) edges,
          prevNodeIds := set (map nodeId nodes)\<rparr>"
    by (rule updateSimulation_unfold)
  obtain rs2 st2 c2 where
    m2: "mergeNodes (nodesById (store e) (simNodes e)) (prevNodeIds e)
       (fst (calculateDepthsAndIslands nodes otherEdges))
       (snd (calculateDepthsAndIslands nodes otherEdges))
       now dims rnd nodes (store e, 0) = (rs2, st2, c2)" and
    u2: "updateSimulation nodes otherEdges now dims rnd e
     = e\<lparr>store := st2, simNodes := rs2, simLinks := makeSimLinks (nodesById st2 rs2) otherEdges,
          prevNodeIds := set (map nodeId nodes)\<rparr>"
    by (rule updateSimulation_unfold)
  have k: "knownRefs (nodesById (store e) (simNodes e)) (fst (store e, 0::nat))"
    using wfEngine_knownRefs [OF assms(1)] by simp
  have st: "store e' = st'" and sn: "simNodes e' = rs"
    and sl: "simLinks e' = makeSimLinks (nodesById st' rs) edges"
    using assms(2) u by simp_all
  have st2: "store e'' = st2" and sn2: "simNodes e'' = rs2" using assms(3) u2 by simp_all
  have ids: "map (\<lambda>r. nodeId (st' ! r)) rs = map nodeId nodes"
    using mergeNodes_ids(1) [OF m k] by simp
  have dom: "dom (nodesById st' rs) = nodeId ` set nodes"
  proof -
    have "(\<lambda>r. nodeId (st' ! r)) ` set rs = set (map (\<lambda>r. nodeId (st' ! r)) rs)" by simp
    also have "\<dots> = nodeId ` set nodes" unfolding ids by simp
    finally show ?thesis by (simp add: nodesById_dom)
  qed
  have a: "\<forall>l \<in> set (simLinks e'). linkSource l \<in> set rs \<and> linkTarget l \<in> set rs"
    unfolding sl using makeSimLinks_member nodesById_SomeD by blast
  have b: "map (\<lambda>l. (nodeId (st' ! linkSource l), nodeId (st' ! linkTarget l), linkLabel l))
             (simLinks e')
         = map (\<lambda>e. (source e, target e, edgeLabel e))
             (filter (\<lambda>e. source e \<in> nodeId ` set nodes \<and> target e \<in> nodeId ` set nodes) edges)"
    unfolding sl
    using makeSimLinks_projection [of "nodesById st' rs" st' edges] nodesById_SomeD dom
    by auto
  have "rs = rs2 \<and> map forgetTopology (fst (st', c)) = map forgetTopology (fst (st2, c2))"
    by (rule mergeNodes_topology_independent [OF m m2]) simp_all
  then show ?thesis unfolding st sn st2 sn2 using a b ids by simp
qed

text \<open>
  Claim C7, the scenario: the single root \<open>A\<close> and the edge \<open>A \<rightarrow> Z\<close> with \<open>Z\<close>
  absent give no SimLink and the SimNode of \<open>A\<close> alone, as without the edge. A second
  instance: with \<open>A\<close>, \<open>B\<close> and the edges \<open>A \<rightarrow> B\<close>, \<open>A \<rightarrow> Z\<close>, the one link is
  \<open>A \<rightarrow> B\<close> and its source is among the SimNodes.
\<close>

theorem C7_witness:
  "simLinks (updateSimulation [rootA] [\<lparr>source = ''A'', target = ''Z'', edgeLabel = None\<rparr>]
      1000 exampleDims exampleRnd initialEngine) = []
   \<and> map (\<lambda>r. nodeId (store (updateSimulation [rootA]
              [\<lparr>source = ''A'', target = ''Z'', edgeLabel = None\<rparr>] 1000 exampleDims exampleRnd
              initialEngine) ! r))
       (simNodes (updateSimulation [rootA] [\<lparr>source = ''A'', target = ''Z'', edgeLabel = None\<rparr>]
          1000 exampleDims exampleRnd initialEngine)) = [''A'']
   \<and> simNodes (updateSimulation [rootA] [] 1000 exampleDims exampleRnd initialEngine)
     = simNodes (updateSimulation [rootA] [\<lparr>source = ''A'', target = ''Z'', edgeLabel = None\<rparr>]
          1000 exampleDims exampleRnd initialEngine)
   \<and> map (\<lambda>l. (nodeId (store (updateSimulation [rootA, genB]
                    [\<lparr>source = ''A'', target = ''B'', edgeLabel = Some ''uses''\<rparr>,
                     \<lparr>source = ''A'', target = ''Z'', edgeLabel = None\<rparr>]
                    2000 exampleDims exampleRnd engineAB) ! linkSource l),
                 nodeId (store (updateSimulation [rootA, genB]
                    [\<lparr>source = ''A'', target = ''B'', edgeLabel = Some ''uses''\<rparr>,
                     \<lparr>source = ''A'', target = ''Z'', edgeLabel = None\<rparr>]
                    2000 exampleDims exampleRnd engineAB) ! linkTarget l),
                 linkLabel l))
       (simLinks (updateSimulation [rootA, genB]
          [\<lparr>source = ''A'', target = ''B'', edgeLabel = Some ''uses''\<rparr>,
           \<lparr>source = ''A'', target = ''Z'', edgeLabel = None\<rparr>]
          2000 exampleDims exampleRnd engineAB))
     = [(''A'', ''B'', Some ''uses'')]
   \<and> linkSource (hd (simLinks (updateSimulation [rootA, genB]
          [\<lparr>source = ''A'', target = ''B'', edgeLabel = Some ''uses''\<rparr>,
           \<lparr>source = ''A'', target = ''Z'', edgeLabel = None\<rparr>]
          2000 exampleDims exampleRnd engineAB)))
     \<in> set (simNodes (updateSimulation [rootA, genB]
          [\<lparr>source = ''A'', target = ''B'', edgeLabel = Some ''uses''\<rparr>,
           \<lparr>source = ''A'', target = ''Z'', edgeLabel = None\<rparr>]
          2000 exampleDims exampleRnd engineAB))"
proof -
  let ?edges = "[\<lparr>source = ''A'', target = ''B'', edgeLabel = Some ''uses''\<rparr>,
           \<lparr>source = ''A'', target = ''Z'', edgeLabel = None\<rparr>]"
  let ?e' = "updateSimulation [rootA, genB] ?edges 2000 exampleDims exampleRnd engineAB"
  note one = C7_links_need_both_endpoints [OF wfEngine_initial refl refl,
      of "[rootA]" "[\<lparr>source = ''A'', target = ''Z'', edgeLabel = None\<rparr>]" 1000 exampleDims
        exampleRnd "[]"]
  note two = C7_links_need_both_endpoints [OF wfEngine_engineAB refl refl,
      of "[rootA, genB]" ?edges 2000 exampleDims exampleRnd "[]"]
  have p: "map (\<lambda>l. (nodeId (store ?e' ! linkSource l), nodeId (store ?e' ! linkTarget l),
                 linkLabel l)) (simLinks ?e') = [(''A'', ''B'', Some ''uses'')]"
    using two by (simp add: rootA_def genB_def)
  then have "simLinks ?e' \<noteq> []" by auto
  then have "hd (simLinks ?e') \<in> set (simLinks ?e')" by simp
  then have h: "linkSource (hd (simLinks ?e')) \<in> set (simNodes ?e')" using two by blast
  show ?thesis using one p h by (simp add: rootA_def)
qed

text \<open>
  Claim C2, as amended. A node that no root-type node reaches along edges (so also a
  node with no path to a root in either direction) has no entry in the depth map and
  none in the island map. The merge gives its SimNode depth 0 and island index 0, the
  defaults of \<open>?? 0\<close>, and the render draws it, once its entrance progress is
  positive and unless it is the expanding node, in the colour of depth 0 in island 0:
  \<open>hsl(0, 85%, 55%)\<close>.
\<close>

theorem C2_unreachable_node_gets_depth_zero_colour:
  assumes "wfEngine e" and "i < length nodes"
    and "nodeId (nodes ! i) \<notin> reachableFromRoots nodes edges"
    and "e' = updateSimulation nodes edges now dims rnd e"
  shows "fst (calculateDepthsAndIslands nodes edges) (nodeId (nodes ! i)) = None
       \<and> snd (calculateDepthsAndIslands nodes edges) (nodeId (nodes ! i)) = None
       \<and> depth (store e' ! (simNodes e' ! i)) = 0
       \<and> islandIndex (store e' ! (simNodes e' ! i)) = 0
       \<and> drawnColor expandingNodeId (store e' ! (simNodes e' ! i))
         = (if entranceProgress (store e' ! (simNodes e' ! i)) \<le> 0 then None
            else Some (if expandingNodeId = Some (nodeId (nodes ! i)) then Hex ''#f59e0b''
                       else getColorByDepthAndIsland 0 0))
       \<and> getColorByDepthAndIsland 0 0 = Hsl 0 85 55"
proof -
  obtain rs st' c where
    u: "updateSimulation nodes edges now dims rnd e
     = e\<lparr>store := st', simNodes := rs, simLinks := makeSimLinks (nodesById st' rs) edges,
          prevNodeIds := set (map nodeId nodes)\<rparr>" and
    m: "mergeNodes (nodesById (store e) (simNodes e)) (prevNodeIds e)
       (fst (calculateDepthsAndIslands nodes edges)) (snd (calculateDepthsAndIslands nodes edges))
       now dims rnd nodes (store e, 0) = (rs, st', c)" and
    k: "knownRefs (nodesById (store e) (simNodes e)) (fst (store e, 0::nat))"
    using assms(1,2) by (rule upd_common)
  have st: "store e' = st'" and sn: "simNodes e' = rs" using assms(4) u by simp_all
  let ?dm = "fst (calculateDepthsAndIslands nodes edges)"
  let ?im = "snd (calculateDepthsAndIslands nodes edges)"
  have c: "calculateDepthsAndIslands nodes edges = (?dm, ?im)" by simp
  have "nodeId (nodes ! i) \<notin> dom ?dm" using calculate_sound [OF c] assms(3) by blast
  moreover have "dom ?im = dom ?dm" using calculate_closed [OF c] by simp
  ultimately have none: "?dm (nodeId (nodes ! i)) = None" "?im (nodeId (nodes ! i)) = None"
    by (auto simp: domIff)
  have idr: "nodeId (st' ! (rs ! i)) = nodeId (nodes ! i)"
    using mergeNodes_refs [OF m k assms(2)] by simp
  have "consistentNode ?dm ?im (st' ! (rs ! i))"
    using mergeNodes_consistent [OF m k assms(2)] by simp
  then have z: "depth (st' ! (rs ! i)) = 0" "islandIndex (st' ! (rs ! i)) = 0"
    using none idr by (simp_all add: consistentNode_def getOrZero_def)
  show ?thesis
    unfolding st sn
    using none z idr getColor_root_of_first_island by (simp add: drawnColor_def)
qed

text \<open>
  Claim C2, an instance: in an engine that holds \<open>B\<close> at depth 1, an update leaves
  \<open>B\<close> only the edge \<open>B \<rightarrow> A\<close> towards the root. \<open>B\<close> has no entry in the depth
  map, its SimNode falls to depth 0 and is drawn in \<open>hsl(0, 85%, 55%)\<close>.
\<close>

theorem C2_witness:
  "''B'' \<notin> reachableFromRoots [rootA, genB] [\<lparr>source = ''B'', target = ''A'', edgeLabel = None\<rparr>]
   \<and> fst (calculateDepthsAndIslands [rootA, genB]
         [\<lparr>source = ''B'', target = ''A'', edgeLabel = None\<rparr>]) ''B'' = None
   \<and> depth (store engineAB ! 1) = 1
   \<and> simNodes (updateSimulation [rootA, genB]
         [\<lparr>source = ''B'', target = ''A'', edgeLabel = None\<rparr>] 2000 exampleDims exampleRnd
         engineAB) ! 1 = 1
   \<and> depth (store (updateSimulation [rootA, genB]
         [\<lparr>source = ''B'', target = ''A'', edgeLabel = None\<rparr>] 2000 exampleDims exampleRnd
         engineAB) ! 1) = 0
   \<and> drawnColor None (store (updateSimulation [rootA, genB]
         [\<lparr>source = ''B'', target = ''A'', edgeLabel = None\<rparr>] 2000 exampleDims exampleRnd
         engineAB) ! 1) = Some (Hsl 0 85 55)"
proof -
  let ?edges = "[\<lparr>source = ''B'', target = ''A'', edgeLabel = None\<rparr>]"
  let ?e' = "updateSimulation [rootA, genB] ?edges 2000 exampleDims exampleRnd engineAB"
  have "''A'' \<notin> Domain (edgeRel ?edges)" by (simp add: edgeRel_def)
  then have "\<And>y. ((''A'', y) \<in> (edgeRel ?edges)\<^sup>*) = (''A'' = y)"
    by (rule Not_Domain_rtrancl)
  then have u: "nodeId ([rootA, genB] ! 1) \<notin> reachableFromRoots [rootA, genB] ?edges"
    by (auto simp: reachableFromRoots_def rootNodesOf_def rootA_def genB_def)
  have i: "1 < length [rootA, genB]" by simp
  have ev: "simNodes ?e' = [0, 1] \<and> entranceProgress (store ?e' ! 1) = 1"
    by (simp add: eval_simps engineAB_eval)
  then have r3: "simNodes ?e' ! 1 = 1" and ep: "entranceProgress (store ?e' ! 1) = 1"
    by simp_all
  have d0: "depth (store engineAB ! 1) = 1" by (simp add: engineAB_eval)
  from C2_unreachable_node_gets_depth_zero_colour [OF wfEngine_engineAB i u refl,
      of 2000 exampleDims exampleRnd None] u r3 ep d0
  show ?thesis by (simp add: genB_def)
qed

text \<open>
  Claim C2 as stated fails: with the root \<open>A\<close>, the node \<open>B\<close> and no edges, \<open>B\<close> has
  no entry in either map, and it is drawn in the colour of depth 0, the very colour of
  the root \<open>A\<close>.
\<close>

theorem C2_depth_colour_for_unreachable_counterexample:
  "fst (calculateDepthsAndIslands [rootA, genB] []) ''B'' = None
   \<and> snd (calculateDepthsAndIslands [rootA, genB] []) ''B'' = None
   \<and> map nodeId (store (updateSimulation [rootA, genB] [] 1000 exampleDims exampleRnd
        initialEngine)) = [''A'', ''B'']
   \<and> map depth (store (updateSimulation [rootA, genB] [] 1000 exampleDims exampleRnd
        initialEngine)) = [0, 0]
   \<and> map (drawnColor None) (store (updateSimulation [rootA, genB] [] 1000 exampleDims exampleRnd
        initialEngine)) = [Some (getColorByDepth 0), Some (getColorByDepth 0)]"
  by (simp add: eval_simps drawnColor_def getColorByDepthAndIsland_def)

section \<open>Claims about picking\<close>

text \<open>
  Claim C6. The hit radius is 40. \<open>findNodeAtPosition\<close> converts the point with the
  current transform and returns the first reference of the node list whose node is
  nearer than 40 to the converted point: \<open>find\<close> takes the first in list order, whatever
  the distances of later nodes. For a node \<open>N\<close> of the list with no other node of the
  list within 40 of its position, a click at the surface position of \<open>N\<close>, with
  interactions enabled, a canvas and a handler, selects \<open>N\<close> and fires the handler with
  the id, label, type and reason of \<open>N\<close>. These are the GraphNode supplied at the last
  update, when its ids were distinct and nothing since has changed those four fields.
  With interactions disabled nothing fires.
\<close>

theorem C6_click_fires_with_payload_of_picked_node:
  assumes "transK (transform e) \<noteq> 0"
    and "r \<in> set (simNodes e)"
    and "nx = orZero (nodeX (store e ! r))" and "ny = orZero (nodeY (store e ! r))"
    and "\<forall>j \<in> set (simNodes e). j \<noteq> r \<longrightarrow> HIT_RADIUS \<le> hitDistance (store e ! j) nx ny"
    and "(sx, sy) = toScreen (transform e) (nx, ny)"
    and "wfEngine e0" and "distinct (map nodeId nodes)" and "i < length nodes"
    and "e1 = updateSimulation nodes edges now dims rnd e0"
    and "simNodes e = simNodes e1" and "r = simNodes e1 ! i"
    and "nodeId (store e ! r) = nodeId (store e1 ! r) \<and> label (store e ! r) = label (store e1 ! r)
       \<and> nodeType (store e ! r) = nodeType (store e1 ! r)
       \<and> reason (store e ! r) = reason (store e1 ! r)"
  shows "HIT_RADIUS = 40
       \<and> findNodeAtPosition e px py
         = List.find (\<lambda>j. hitDistance (store e ! j)
                            (fst (toSimulation (transform e) (px, py)))
                            (snd (toSimulation (transform e) (px, py))) < 40) (simNodes e)
       \<and> findNodeAtPosition e sx sy = Some r
       \<and> handleCanvasClick False (Some (rectLeft, rectTop)) True e (rectLeft + sx) (rectTop + sy)
         = (Some r, Some \<lparr>nodeId = nodeId (store e ! r), label = label (store e ! r),
                          nodeType = nodeType (store e ! r), reason = reason (store e ! r)\<rparr>)
       \<and> handleCanvasClick False (Some (rectLeft, rectTop)) True e (rectLeft + sx) (rectTop + sy)
         = (Some r, Some (nodes ! i))
       \<and> handleCanvasClick True rect hasHandler e cx cy = (None, None)"
proof -
  have find: "findNodeAtPosition e px py
         = List.find (\<lambda>j. hitDistance (store e ! j)
                            (fst (toSimulation (transform e) (px, py)))
                            (snd (toSimulation (transform e) (px, py))) < 40) (simNodes e)"
    by (simp add: findNodeAtPosition_def split_beta scanNodes_find HIT_RADIUS_def)
  have inv: "toSimulation (transform e) (sx, sy) = (nx, ny)"
    using toSimulation_toScreen [OF assms(1)] assms(6) by simp
  have self: "hitDistance (store e ! r) nx ny < HIT_RADIUS"
    using hitDistance_self [of "store e ! r"] assms(3,4) by (simp add: HIT_RADIUS_def)
  have others: "\<forall>j \<in> set (simNodes e). j \<noteq> r \<longrightarrow> \<not> hitDistance (store e ! j) nx ny < HIT_RADIUS"
    using assms(5) by auto
  have pick: "findNodeAtPosition e sx sy = Some r"
    using scanNodes_only_hit [OF assms(2) self others] inv
    by (simp add: findNodeAtPosition_def)
  have click: "handleCanvasClick False (Some (rectLeft, rectTop)) True e
         (rectLeft + sx) (rectTop + sy)
         = (Some r, Some \<lparr>nodeId = nodeId (store e ! r), label = label (store e ! r),
                          nodeType = nodeType (store e ! r), reason = reason (store e ! r)\<rparr>)"
    using pick by (simp add: handleCanvasClick_def)
  obtain rs st' c where
    u: "updateSimulation nodes edges now dims rnd e0
     = e0\<lparr>store := st', simNodes := rs, simLinks := makeSimLinks (nodesById st' rs) edges,
          prevNodeIds := set (map nodeId nodes)\<rparr>" and
    m: "mergeNodes (nodesById (store e0) (simNodes e0)) (prevNodeIds e0)
       (fst (calculateDepthsAndIslands nodes edges)) (snd (calculateDepthsAndIslands nodes edges))
       now dims rnd nodes (store e0, 0) = (rs, st', c)" and
    k: "knownRefs (nodesById (store e0) (simNodes e0)) (fst (store e0, 0::nat))"
    using assms(7,9) by (rule upd_common)
  have st: "store e1 = st'" and sn: "simNodes e1 = rs" using assms(10) u by simp_all
  have "nodeId (st' ! (rs ! i)) = nodeId (nodes ! i)"
    using mergeNodes_refs [OF m k assms(9)] by simp
  moreover have "label (st' ! (rs ! i)) = label (nodes ! i)
    \<and> nodeType (st' ! (rs ! i)) = nodeType (nodes ! i)
    \<and> reason (st' ! (rs ! i)) = reason (nodes ! i)"
    using mergeNodes_payload [OF m k assms(9,8)] by simp
  ultimately have "\<lparr>nodeId = nodeId (store e ! r), label = label (store e ! r),
      nodeType = nodeType (store e ! r), reason = reason (store e ! r)\<rparr> = nodes ! i"
    using assms(12,13) st sn by simp
  then show ?thesis
    using find pick click by (simp add: HIT_RADIUS_def handleCanvasClick_def)
qed

text \<open>
  Claim C6, an instance: in the engine with \<open>A\<close> at \<open>(375, 275)\<close> and \<open>B\<close> at
  \<open>(420, 320)\<close>, a click at the position of \<open>B\<close> on a canvas whose corner is at
  \<open>(10, 20)\<close> fires with the GraphNode \<open>B\<close>. At \<open>(400, 300)\<close> both nodes are within
  the radius and \<open>B\<close> is the nearer one, yet the pick is \<open>A\<close>, first in the list.
\<close>

theorem C6_witness:
  "handleCanvasClick False (Some (10, 20)) True engineAB (10 + 420) (20 + 320)
   = (Some 1, Some genB)
   \<and> findNodeAtPosition engineAB 400 300 = Some 0
   \<and> hitDistance (store engineAB ! 1) 400 300 < hitDistance (store engineAB ! 0) 400 300"
proof -
  let ?edges = "[\<lparr>source = ''A'', target = ''B'', edgeLabel = None\<rparr>]"
  have k: "transK (transform engineAB) \<noteq> 0" by (simp add: engineAB_eval zoomIdentity_def)
  have r: "1 \<in> set (simNodes engineAB)" by (simp add: engineAB_eval)
  have nx: "420 = orZero (nodeX (store engineAB ! 1))"
    and ny: "320 = orZero (nodeY (store engineAB ! 1))"
    unfolding engineAB_eval by (simp_all add: orZero_def)
  have far: "\<forall>j \<in> set (simNodes engineAB). j \<noteq> 1 \<longrightarrow>
      HIT_RADIUS \<le> hitDistance (store engineAB ! j) 420 320"
    unfolding engineAB_eval using hit_iff [of "store engineAB ! 0" 420 320]
    by (simp add: engineAB_eval orZero_def)
  have s: "(420, 320) = toScreen (transform engineAB) (420, 320)"
    by (simp add: engineAB_eval zoomIdentity_def toScreen_def)
  have d: "distinct (map nodeId [rootA, genB])" by (simp add: rootA_def genB_def)
  have i: "1 < length [rootA, genB]" by simp
  have e1: "engineAB = updateSimulation [rootA, genB] ?edges 1000 exampleDims exampleRnd
      initialEngine"
    by (simp add: engineAB_def)
  have r1: "1 = simNodes engineAB ! 1" by (simp add: engineAB_eval)
  have same: "nodeId (store engineAB ! 1) = nodeId (store engineAB ! 1)
       \<and> label (store engineAB ! 1) = label (store engineAB ! 1)
       \<and> nodeType (store engineAB ! 1) = nodeType (store engineAB ! 1)
       \<and> reason (store engineAB ! 1) = reason (store engineAB ! 1)"
    by simp
  note t = C6_click_fires_with_payload_of_picked_node
    [OF k r nx ny far s wfEngine_initial d i e1 refl r1 same, of 400 300 10 20 None False 0 0]
  from t have click: "handleCanvasClick False (Some (10, 20)) True engineAB (10 + 420) (20 + 320)
      = (Some 1, Some ([rootA, genB] ! 1))"
    by blast
  from t have f: "findNodeAtPosition engineAB 400 300
      = List.find (\<lambda>j. hitDistance (store engineAB ! j)
                            (fst (toSimulation (transform engineAB) (400, 300)))
                            (snd (toSimulation (transform engineAB) (400, 300))) < 40)
          (simNodes engineAB)"
    by blast
  have sim: "toSimulation (transform engineAB) (400, 300) = (400, 300)"
    by (simp add: engineAB_eval zoomIdentity_def toSimulation_def)
  have hA: "hitDistance (store engineAB ! 0) 400 300 < 40"
    using hit_iff [of "store engineAB ! 0" 400 300]
    by (simp add: engineAB_eval orZero_def HIT_RADIUS_def)
  have pick: "findNodeAtPosition engineAB 400 300 = Some 0"
    unfolding f sim using hA by (simp add: engineAB_eval)
  have nearer: "hitDistance (store engineAB ! 1) 400 300 < hitDistance (store engineAB ! 0) 400 300"
    by (simp add: engineAB_eval hitDistance_def orZero_def)
  from click pick nearer show ?thesis by simp
qed

end
